theory Spec2Isabelle
  imports Main "HOL-Library.Word"
begin

section \<open>image-grabber: the download routine of \<^verbatim>\<open>main.go\<close>\<close>

text \<open>
  The program crawls one page and hands every \<^verbatim>\<open>img[src]\<close> it finds to
  \<^verbatim>\<open>DownloadFile\<close>, which streams the resource into a staging file and renames
  it to its final name. The repository's own code (\<^verbatim>\<open>WriteCounter\<close>,
  \<^verbatim>\<open>DownloadFile\<close>, \<^verbatim>\<open>getFileName\<close>, \<^verbatim>\<open>main\<close>) is embedded
  below. What it calls in the Go standard library and in colly is outside the repository:
  the outcome of each such call is read from an environment record, and its effect on the
  file system is written out as the library documents it.

  The repository holds a second variant of the program with the same
  \<^verbatim>\<open>WriteCounter\<close>, \<^verbatim>\<open>DownloadFile\<close> and \<^verbatim>\<open>getFileName\<close>,
  whose \<^verbatim>\<open>main\<close> collects links and drives a browser and does not call
  \<^verbatim>\<open>DownloadFile\<close>. The \<^verbatim>\<open>main\<close> below is the one that downloads.

  One process runs at a time, and nothing else changes the files while it runs.
\<close>

subsection \<open>Data\<close>

type_synonym byte = "8 word"
type_synonym uint64 = "64 word"
type_synonym path = string

text \<open>A file system maps a path to the content of the file there. Distinct paths are
  distinct files: there are no links and no directories in this model.\<close>

type_synonym filesystem = "path \<Rightarrow> byte list option"

text \<open>A Go \<^verbatim>\<open>error\<close> value, identified by its message.\<close>

datatype error = Error string

definition EOF :: error where
  "EOF = Error ''EOF''"

text \<open>A call either returns to its caller or unwinds the stack with a panic.\<close>

datatype 'a outcome = Returns 'a | Panics error

text \<open>How the process ends: with an exit status, or killed by an unrecovered panic.\<close>

datatype exit = ExitCode nat | PanicExit error

text \<open>The fields of \<^verbatim>\<open>url.URL\<close> that the program reads.\<close>

record URL =
  Scheme :: string
  Host :: string
  Path :: string

text \<open>
  A response body is a reader: the list of results that its successive \<^verbatim>\<open>Read\<close>
  calls return, each a chunk and an error (\<open>None\<close> is Go's \<^verbatim>\<open>nil\<close>). A reader
  whose list is used up returns \<^verbatim>\<open>(0, io.EOF)\<close>. A body that never ends is not
  a value of this type: then \<^verbatim>\<open>DownloadFile\<close> does not return.
\<close>

type_synonym reader = "(byte list \<times> error option) list"

text \<open>The calls that leave the process, as they are recorded in the trace.\<close>

datatype call =
    Stat path
  | MkdirAll path nat
  | Visit string
  | Create path
  | Get string
  | FileWrite path "byte list"
  | Rename path path

text \<open>
  The world the program runs in: the files, the text printed so far, and the trace, which
  keeps every call together with the file system as that call left it.
\<close>

record world =
  files :: filesystem
  stdout :: "string list"
  trace :: "(call \<times> filesystem) list"

text \<open>
  The environment decides what the library calls report. \<open>write_result p old b\<close> is the
  result of writing \<open>b\<close> to the file at \<open>p\<close> that holds \<open>old\<close>: \<open>None\<close> when all of
  \<open>b\<close> is written, \<open>Some (n, e)\<close> when the write fails with \<open>e\<close> after \<open>n\<close> bytes.
  \<open>visit_result u\<close> lists the \<^verbatim>\<open>src\<close> attributes of the \<^verbatim>\<open>img\<close>
  elements that colly finds at \<open>u\<close>, in document order.
\<close>

record env =
  url_Parse :: "string \<Rightarrow> error + URL"
  humanize_Bytes :: "uint64 \<Rightarrow> string"
  create_result :: "path \<Rightarrow> filesystem \<Rightarrow> error option"
  get_result :: "string \<Rightarrow> error + reader"
  write_result :: "path \<Rightarrow> byte list \<Rightarrow> byte list \<Rightarrow> (nat \<times> error) option"
  rename_result :: "path \<Rightarrow> path \<Rightarrow> filesystem \<Rightarrow> error option"
  stat_result :: "path \<Rightarrow> error option"
  os_IsNotExist :: "error option \<Rightarrow> bool"
  mkdir_result :: "path \<Rightarrow> nat \<Rightarrow> error option"
  visit_result :: "string \<Rightarrow> string list"

subsection \<open>Primitive effects\<close>

definition print :: "string \<Rightarrow> world \<Rightarrow> world" where
  "print s w = w\<lparr>stdout := stdout w @ [s]\<rparr>"

text \<open>A call that leaves the file system as \<open>fs\<close>, and a call that leaves it as it
  is.\<close>

definition sys :: "call \<Rightarrow> filesystem \<Rightarrow> world \<Rightarrow> world" where
  "sys c fs w = w\<lparr>files := fs, trace := trace w @ [(c, fs)]\<rparr>"

definition called :: "call \<Rightarrow> world \<Rightarrow> world" where
  "called c w = sys c (files w) w"

definition NL :: string where
  "NL = [CHR 0x0A]"

definition CR :: string where
  "CR = [CHR 0x0D]"

subsection \<open>WriteCounter\<close>

record WriteCounter =
  Total :: uint64

text \<open>\<^verbatim>\<open>func (wc WriteCounter) PrintProgress()\<close>\<close>

definition PrintProgress :: "env \<Rightarrow> WriteCounter \<Rightarrow> world \<Rightarrow> world" where
  "PrintProgress env wc w =
     print (CR @ ''Downloading... '' @ humanize_Bytes env (Total wc) @ '' complete'')
       (print (CR @ replicate 50 (CHR '' '')) w)"

text \<open>\<^verbatim>\<open>func (wc *WriteCounter) Write(p []byte) (int, error)\<close>\<close>

definition Write :: "env \<Rightarrow> WriteCounter \<Rightarrow> byte list \<Rightarrow> world
    \<Rightarrow> (nat \<times> error option) \<times> WriteCounter \<times> world" where
  "Write env wc p w =
     (let n = length p;
          wc' = wc\<lparr>Total := Total wc + of_nat n\<rparr>;
          w' = PrintProgress env wc' w
      in ((n, None), wc', w'))"

subsection \<open>Library calls\<close>

text \<open>\<^verbatim>\<open>strings.Split(s, sep)\<close> for a separator of one byte: the pieces of
  \<open>s\<close> between the separators, one more than there are separators.\<close>

fun strings_Split :: "string \<Rightarrow> char \<Rightarrow> string list" where
  "strings_Split [] sep = [[]]"
| "strings_Split (c # cs) sep =
     (if c = sep then [] # strings_Split cs sep
      else (c # hd (strings_Split cs sep)) # tl (strings_Split cs sep))"

text \<open>\<^verbatim>\<open>os.Create\<close>: the file is created, or truncated when it exists.\<close>

definition os_Create :: "env \<Rightarrow> path \<Rightarrow> world \<Rightarrow> error option \<times> world" where
  "os_Create env name w =
     (case create_result env name (files w) of
        Some err \<Rightarrow> (Some err, called (Create name) w)
      | None \<Rightarrow> (None, sys (Create name) ((files w)(name \<mapsto> [])) w))"

definition http_Get :: "env \<Rightarrow> string \<Rightarrow> world \<Rightarrow> (error + reader) \<times> world" where
  "http_Get env url w = (get_result env url, called (Get url) w)"

text \<open>\<^verbatim>\<open>File.Write\<close> on the handle that \<^verbatim>\<open>os.Create\<close> returned for
  \<open>name\<close>: the bytes go to the end of the file; a write that stores fewer bytes than it
  was given returns an error.\<close>

definition file_Write :: "env \<Rightarrow> path \<Rightarrow> byte list \<Rightarrow> world \<Rightarrow> error option \<times> world" where
  "file_Write env name b w =
     (let old = (case files w name of None \<Rightarrow> [] | Some c \<Rightarrow> c) in
      case write_result env name old b of
        None \<Rightarrow> (None, sys (FileWrite name b) ((files w)(name \<mapsto> old @ b)) w)
      | Some (n, err) \<Rightarrow>
          (Some err, sys (FileWrite name (take n b)) ((files w)(name \<mapsto> old @ take n b)) w))"

text \<open>\<^verbatim>\<open>os.Rename\<close>: on success the new path holds the old path's file, replacing
  what was there, and the old path is gone; on failure nothing changes.\<close>

definition os_Rename :: "env \<Rightarrow> path \<Rightarrow> path \<Rightarrow> world \<Rightarrow> error option \<times> world" where
  "os_Rename env oldpath newpath w =
     (case rename_result env oldpath newpath (files w) of
        Some err \<Rightarrow> (Some err, called (Rename oldpath newpath) w)
      | None \<Rightarrow>
          (None, sys (Rename oldpath newpath)
             (if oldpath = newpath then files w
              else ((files w)(newpath := files w oldpath))(oldpath := None)) w))"

text \<open>\<^verbatim>\<open>io.TeeReader(r, w).Read\<close>, given what \<open>r\<close>'s own \<^verbatim>\<open>Read\<close> returned:
  a non-empty chunk is written to the counter, whose error, if any, replaces the
  reader's.\<close>

definition TeeReader_Read :: "env \<Rightarrow> byte list \<times> error option \<Rightarrow> WriteCounter \<Rightarrow> world
    \<Rightarrow> (byte list \<times> error option) \<times> WriteCounter \<times> world" where
  "TeeReader_Read env r wc w =
     (case r of (p, err) \<Rightarrow>
        if length p > 0 then
          (case Write env wc p w of
             ((n, Some werr), wc', w') \<Rightarrow> ((take n p, Some werr), wc', w')
           | ((n, None), wc', w') \<Rightarrow> ((p, err), wc', w'))
        else ((p, err), wc, w))"

text \<open>\<^verbatim>\<open>io.Copy(out, io.TeeReader(resp.Body, counter))\<close>: read a chunk through
  the tee, write it to the file when it is not empty, stop at the first write error, and
  stop when the read reported an error, which is the result unless it is
  \<^verbatim>\<open>io.EOF\<close>.\<close>

fun io_Copy :: "env \<Rightarrow> path \<Rightarrow> reader \<Rightarrow> WriteCounter \<Rightarrow> world
    \<Rightarrow> error option \<times> WriteCounter \<times> world" where
  "io_Copy env dst [] wc w = (None, wc, w)"
| "io_Copy env dst (r # rs) wc w =
     (case TeeReader_Read env r wc w of
        ((q, er), wc1, w1) \<Rightarrow>
          (case (if length q > 0 then file_Write env dst q w1 else (None, w1)) of
             (Some ew, w2) \<Rightarrow> (Some ew, wc1, w2)
           | (None, w2) \<Rightarrow>
               (case er of
                  None \<Rightarrow> io_Copy env dst rs wc1 w2
                | Some e \<Rightarrow> (if e = EOF then None else Some e, wc1, w2))))"

subsection \<open>getFileName and DownloadFile\<close>

text \<open>\<^verbatim>\<open>func getFileName(fullUrlFile string) string\<close>: a parse error panics;
  indexing an empty slice would panic too.\<close>

definition getFileName :: "env \<Rightarrow> string \<Rightarrow> string outcome" where
  "getFileName env fullUrlFile =
     (case url_Parse env fullUrlFile of
        Inl err \<Rightarrow> Panics err
      | Inr fileUrl \<Rightarrow>
          (let path = Path fileUrl;
               segments = strings_Split path (CHR ''/'')
           in if length segments = 0 then Panics (Error ''index out of range [-1]'')
              else Returns (segments ! (length segments - 1))))"

definition staging_path :: "string \<Rightarrow> string \<Rightarrow> path" where
  "staging_path dir fileName = dir @ ''/'' @ fileName @ ''.tmp''"

definition final_path :: "string \<Rightarrow> string \<Rightarrow> path" where
  "final_path dir fileName = dir @ ''/'' @ fileName"

text \<open>\<^verbatim>\<open>func DownloadFile(url string, dir string) error\<close>. Beside the result and
  the world, the model returns the counter as it stands when the function ends
  (\<open>None\<close> when it ends before the counter exists).\<close>

definition DownloadFile :: "env \<Rightarrow> string \<Rightarrow> string \<Rightarrow> world
    \<Rightarrow> error option outcome \<times> WriteCounter option \<times> world" where
  "DownloadFile env url dir w =
     (case getFileName env url of
        Panics e \<Rightarrow> (Panics e, None, w)
      | Returns fileName \<Rightarrow>
          (case os_Create env (staging_path dir fileName) w of
             (Some err, w1) \<Rightarrow> (Returns (Some err), None, w1)
           | (None, w1) \<Rightarrow>
               (case http_Get env url w1 of
                  (Inl err, w2) \<Rightarrow> (Returns (Some err), None, w2)
                | (Inr body, w2) \<Rightarrow>
                    (case io_Copy env (staging_path dir fileName) body \<lparr>Total = 0\<rparr> w2 of
                       (Some err, counter, w3) \<Rightarrow> (Returns (Some err), Some counter, w3)
                     | (None, counter, w3) \<Rightarrow>
                         (case os_Rename env (staging_path dir fileName)
                                 (final_path dir fileName) (print NL w3) of
                            (Some err, w4) \<Rightarrow> (Returns (Some err), Some counter, w4)
                          | (None, w4) \<Rightarrow> (Returns None, Some counter, w4))))))"

subsection \<open>main\<close>

text \<open>The \<^verbatim>\<open>OnHTML("img[src]", ...)\<close> callback of \<^verbatim>\<open>main\<close>, for one element
  whose \<^verbatim>\<open>src\<close> attribute is \<open>url\<close>.\<close>

definition OnHTML_callback :: "env \<Rightarrow> string \<Rightarrow> string \<Rightarrow> world \<Rightarrow> unit outcome \<times> world" where
  "OnHTML_callback env dir url w =
     (case DownloadFile env url dir (print (''image src:  '' @ url @ NL) w) of
        (Panics e, c, w') \<Rightarrow> (Panics e, w')
      | (Returns (Some err), c, w') \<Rightarrow> (Panics err, w')
      | (Returns None, c, w') \<Rightarrow> (Returns (), w'))"

text \<open>colly runs the callback on the elements in turn; a panic in the callback is not
  recovered.\<close>

fun run_callbacks :: "env \<Rightarrow> string \<Rightarrow> string list \<Rightarrow> world \<Rightarrow> unit outcome \<times> world" where
  "run_callbacks env dir [] w = (Returns (), w)"
| "run_callbacks env dir (url # urls) w =
     (case OnHTML_callback env dir url w of
        (Panics e, w') \<Rightarrow> (Panics e, w')
      | (Returns u, w') \<Rightarrow> run_callbacks env dir urls w')"

definition colly_Visit :: "env \<Rightarrow> string \<Rightarrow> string \<Rightarrow> world \<Rightarrow> unit outcome \<times> world" where
  "colly_Visit env dir url w =
     run_callbacks env dir (visit_result env url) (called (Visit url) w)"

text \<open>\<^verbatim>\<open>func main()\<close>, on the argument vector \<^verbatim>\<open>os.Args\<close>. The error of
  \<^verbatim>\<open>os.MkdirAll\<close> is assigned to \<^verbatim>\<open>err\<close> and not read again.\<close>

definition main :: "env \<Rightarrow> string list \<Rightarrow> world \<Rightarrow> exit \<times> world" where
  "main env Args w =
     (if length Args \<noteq> 3 then (ExitCode 1, print (''usage: download url directory'' @ NL) w)
      else
        (let w1 = print (''Download Started'' @ NL) w;
             url = Args ! 1;
             dir = Args ! 2;
             w2 = called (Stat dir) w1;
             w3 = (if os_IsNotExist env (stat_result env dir)
                   then (let err = mkdir_result env dir 448 in called (MkdirAll dir 448) w2)
                   else w2)
         in case colly_Visit env dir url w3 of
              (Panics e, w4) \<Rightarrow> (PanicExit e, w4)
            | (Returns u, w4) \<Rightarrow> (ExitCode 0, print (''Grabbing completed!'' @ NL) w4)))"

subsection \<open>Notions the properties are stated with\<close>

text \<open>The bytes that a body delivers up to the read that ends it, and the error that
  ends it (\<open>None\<close> when it ends with \<^verbatim>\<open>io.EOF\<close>).\<close>

fun body_bytes :: "reader \<Rightarrow> byte list" where
  "body_bytes [] = []"
| "body_bytes ((p, None) # rs) = p @ body_bytes rs"
| "body_bytes ((p, Some e) # rs) = p"

fun body_error :: "reader \<Rightarrow> error option" where
  "body_error [] = None"
| "body_error ((p, None) # rs) = body_error rs"
| "body_error ((p, Some e) # rs) = (if e = EOF then None else Some e)"

text \<open>The path component of an address as it is written, for an address of the form
  \<^verbatim>\<open>scheme://host/path\<close> with no query and no fragment: what follows the
  host, escapes left as they are. Its final segment is what follows its last
  \<^verbatim>\<open>/\<close>.\<close>

fun after_scheme :: "string \<Rightarrow> string" where
  "after_scheme (a # b # c # s) =
     (if a = CHR '':'' \<and> b = CHR ''/'' \<and> c = CHR ''/'' then s else after_scheme (b # c # s))"
| "after_scheme s = []"

definition written_path :: "string \<Rightarrow> string" where
  "written_path address = dropWhile (\<lambda>c. c \<noteq> CHR ''/'') (after_scheme address)"

definition final_segment :: "string \<Rightarrow> string" where
  "final_segment p = last (strings_Split p (CHR ''/''))"

text \<open>The bytes that the write calls of a trace stored in the file at \<open>p\<close>.\<close>

fun bytes_written :: "path \<Rightarrow> (call \<times> filesystem) list \<Rightarrow> byte list" where
  "bytes_written p [] = []"
| "bytes_written p ((FileWrite q b, fs) # tr) = (if q = p then b else []) @ bytes_written p tr"
| "bytes_written p ((c, fs) # tr) = bytes_written p tr"

text \<open>The part of the trace that a run from \<open>w\<close> to \<open>w'\<close> added.\<close>

definition trace_since :: "world \<Rightarrow> world \<Rightarrow> (call \<times> filesystem) list" where
  "trace_since w w' = drop (length (trace w)) (trace w')"

text \<open>The world in which \<^verbatim>\<open>main\<close> has colly run the callbacks, written out:
  after the announcement, \<^verbatim>\<open>os.Stat\<close>, \<^verbatim>\<open>os.MkdirAll\<close> when the
  directory is reported missing, and the visit of the page.\<close>

definition crawl_start :: "env \<Rightarrow> string list \<Rightarrow> world \<Rightarrow> world" where
  "crawl_start env Args w =
     called (Visit (Args ! 1))
       ((if os_IsNotExist env (stat_result env (Args ! 2))
         then called (MkdirAll (Args ! 2) 448) else id)
          (called (Stat (Args ! 2)) (print (''Download Started'' @ NL) w)))"

subsection \<open>Scenarios\<close>

definition empty_world :: world where
  "empty_world = \<lparr>files = Map.empty, stdout = [], trace = []\<rparr>"

text \<open>What \<^verbatim>\<open>url.Parse\<close> returns on the addresses of the scenarios.
  \<^verbatim>\<open>Path\<close> is the decoded path: an escaped \<^verbatim>\<open>%2F\<close> of the address
  is a \<^verbatim>\<open>/\<close> in it. The scenarios use one address that
  \<^verbatim>\<open>url.Parse\<close> rejects, \<^verbatim>\<open>http://example.com/%zz\<close>, for its
  escape; the table rejects every string it does not list.\<close>

definition parse_table :: "string \<Rightarrow> error + URL" where
  "parse_table s =
     (if s = ''https://example.com/a/b/pic.jpg''
      then Inr \<lparr>Scheme = ''https'', Host = ''example.com'', Path = ''/a/b/pic.jpg''\<rparr>
      else if s = ''https://x.test/img/42.png''
      then Inr \<lparr>Scheme = ''https'', Host = ''x.test'', Path = ''/img/42.png''\<rparr>
      else if s = ''https://example.com/gallery/''
      then Inr \<lparr>Scheme = ''https'', Host = ''example.com'', Path = ''/gallery/''\<rparr>
      else if s = ''https://example.com''
      then Inr \<lparr>Scheme = ''https'', Host = ''example.com'', Path = []\<rparr>
      else if s = ''https://example.com/a%2Fb.png''
      then Inr \<lparr>Scheme = ''https'', Host = ''example.com'', Path = ''/a/b.png''\<rparr>
      else if s = ''https://example.com/pic.jpg%2F''
      then Inr \<lparr>Scheme = ''https'', Host = ''example.com'', Path = ''/pic.jpg/''\<rparr>
      else Inl (Error ''invalid URL escape''))"

text \<open>An environment in which every call succeeds and every address answers with the
  body \<open>body\<close>; the page shows the images \<open>imgs\<close>.\<close>

definition fair_env :: "reader \<Rightarrow> string list \<Rightarrow> env" where
  "fair_env body imgs =
     \<lparr>url_Parse = parse_table,
      humanize_Bytes = (\<lambda>n. ''some B''),
      create_result = (\<lambda>p fs. None),
      get_result = (\<lambda>u. Inr body),
      write_result = (\<lambda>p old b. None),
      rename_result = (\<lambda>p q fs. None),
      stat_result = (\<lambda>p. None),
      os_IsNotExist = (\<lambda>e. e = Some (Error ''no such file or directory'')),
      mkdir_result = (\<lambda>p m. None),
      visit_result = (\<lambda>u. imgs)\<rparr>"

text \<open>A body of \<open>n\<close> reads of 32 KiB each, the size of the buffer of
  \<^verbatim>\<open>io.Copy\<close>, and the world in which the copy starts on a staging file
  that has just been created.\<close>

definition chunk32k :: "byte list" where
  "chunk32k = replicate 32768 0"

definition stream :: "nat \<Rightarrow> reader" where
  "stream n = replicate n (chunk32k, None)"

definition copy_start :: "path \<Rightarrow> world" where
  "copy_start p = \<lparr>files = [p \<mapsto> []], stdout = [], trace = []\<rparr>"

text \<open>An environment in which every request is refused.\<close>

definition refused_env :: env where
  "refused_env = (fair_env [] [])\<lparr>get_result := (\<lambda>u. Inl (Error ''connection refused''))\<rparr>"

text \<open>An environment in which the destination directory is missing and cannot be
  created, so that no file can be created in it.\<close>

definition missing_dir_env :: env where
  "missing_dir_env = (fair_env [] [''https://x.test/img/42.png''])
     \<lparr>create_result := (\<lambda>p fs. Some (Error ''no such file or directory'')),
      stat_result := (\<lambda>p. Some (Error ''no such file or directory'')),
      mkdir_result := (\<lambda>p m. Some (Error ''permission denied''))\<rparr>"

text \<open>An environment in which the disk is full once the first chunk is stored: the next
  write stores one byte and fails. And one in which the rename is refused.\<close>

definition full_disk_env :: env where
  "full_disk_env = (fair_env [([1, 2, 3], None), ([4, 5], Some EOF)] [])
     \<lparr>write_result := (\<lambda>p old b. if old = [] then None
                                  else Some (1, Error ''no space left on device''))\<rparr>"

definition rename_denied_env :: env where
  "rename_denied_env = (fair_env [([1, 2, 3], None), ([4, 5], Some EOF)] [])
     \<lparr>rename_result := (\<lambda>p q fs. Some (Error ''permission denied''))\<rparr>"

section \<open>Auxiliary facts\<close>

subsection \<open>Splitting the path\<close>

lemma strings_Split_length:
  "length (strings_Split s sep) = Suc (length (filter (\<lambda>c. c = sep) s))"
  by (induction s) auto

lemma strings_Split_not_Nil: "strings_Split s sep \<noteq> []"
  using strings_Split_length [of s sep] by auto

lemma strings_Split_no_sep: "sep \<notin> set seg \<Longrightarrow> strings_Split seg sep = [seg]"
  by (induction seg) auto

lemma strings_Split_last_append:
  "last (strings_Split (pre @ sep # seg) sep) = last (strings_Split seg sep)"
proof (induction pre)
  case Nil
  show ?case by (simp add: strings_Split_not_Nil)
next
  case (Cons c pre)
  let ?X = "strings_Split (pre @ sep # seg) sep"
  have "length ?X \<ge> 2" by (simp add: strings_Split_length)
  then have "tl ?X \<noteq> []" by (cases ?X) auto
  then have "last (tl ?X) = last ?X" by (simp add: last_tl)
  with Cons show ?case by (simp add: strings_Split_not_Nil \<open>tl ?X \<noteq> []\<close>)
qed

lemma getFileName_last:
  "url_Parse env u = Inr fileUrl \<Longrightarrow>
   getFileName env u = Returns (last (strings_Split (Path fileUrl) (CHR ''/'')))"
  by (simp add: getFileName_def Let_def strings_Split_not_Nil last_conv_nth)

subsection \<open>Effects of the calls\<close>

lemma files_print [simp]: "files (print s w) = files w"
  and trace_print [simp]: "trace (print s w) = trace w"
  by (simp_all add: print_def)

lemma files_sys [simp]: "files (sys c fs w) = fs"
  and trace_sys [simp]: "trace (sys c fs w) = trace w @ [(c, fs)]"
  by (simp_all add: sys_def)

lemma files_called [simp]: "files (called c w) = files w"
  and trace_called [simp]: "trace (called c w) = trace w @ [(c, files w)]"
  by (simp_all add: called_def)

lemma files_PrintProgress [simp]: "files (PrintProgress env wc w) = files w"
  and trace_PrintProgress [simp]: "trace (PrintProgress env wc w) = trace w"
  by (simp_all add: PrintProgress_def)

lemma TeeReader_Read_eq:
  "TeeReader_Read env (p, er) wc w =
     ((p, er), wc\<lparr>Total := Total wc + of_nat (length p)\<rparr>,
      if p = [] then w else PrintProgress env (wc\<lparr>Total := Total wc + of_nat (length p)\<rparr>) w)"
  by (simp add: TeeReader_Read_def Write_def Let_def)

lemma io_Copy_Cons_empty:
  "io_Copy env dst (([], er) # rs) wc w =
     (case er of
        None \<Rightarrow> io_Copy env dst rs wc w
      | Some e \<Rightarrow> (if e = EOF then None else Some e, wc, w))"
  by (simp add: TeeReader_Read_eq)

lemma io_Copy_Cons_nonempty:
  "p \<noteq> [] \<Longrightarrow> io_Copy env dst ((p, er) # rs) wc w =
     (case file_Write env dst p
             (PrintProgress env (wc\<lparr>Total := Total wc + of_nat (length p)\<rparr>) w) of
        (Some ew, w2) \<Rightarrow> (Some ew, wc\<lparr>Total := Total wc + of_nat (length p)\<rparr>, w2)
      | (None, w2) \<Rightarrow>
          (case er of
             None \<Rightarrow> io_Copy env dst rs (wc\<lparr>Total := Total wc + of_nat (length p)\<rparr>) w2
           | Some e \<Rightarrow> (if e = EOF then None else Some e,
                         wc\<lparr>Total := Total wc + of_nat (length p)\<rparr>, w2)))"
  by (simp add: TeeReader_Read_eq)

declare io_Copy.simps(2) [simp del]

lemma io_Copy_step:
  assumes "io_Copy env dst ((p, er) # rs) wc w = (r, wc', w')" and "files w dst = Some old"
  obtains (stop) b' where
      "files w' = (if p = [] then files w else (files w)(dst \<mapsto> old @ b'))"
      "trace w' = trace w @ (if p = [] then [] else [(FileWrite dst b', files w')])"
      "wc' = wc\<lparr>Total := Total wc + of_nat (length p)\<rparr>"
      "r = None \<Longrightarrow> b' = p \<and> er = Some EOF"
      "r \<noteq> None \<Longrightarrow> p \<noteq> [] \<and> write_result env dst old p \<noteq> None
         \<or> b' = p \<and> er = r \<and> r \<noteq> Some EOF"
  | (continue) w2 where
      "er = None"
      "p \<noteq> [] \<Longrightarrow> write_result env dst old p = None"
      "files w2 = (if p = [] then files w else (files w)(dst \<mapsto> old @ p))"
      "trace w2 = trace w @ (if p = [] then [] else [(FileWrite dst p, files w2)])"
      "io_Copy env dst rs (wc\<lparr>Total := Total wc + of_nat (length p)\<rparr>) w2 = (r, wc', w')"
proof (cases "p = []")
  case True
  show ?thesis
  proof (cases er)
    case None
    show ?thesis
      by (rule continue [of w]) (use assms True None in \<open>simp_all add: io_Copy_Cons_empty\<close>)
  next
    case (Some e)
    show ?thesis
      by (rule stop [of "[]"])
        (use assms True Some in \<open>auto simp: io_Copy_Cons_empty split: if_splits\<close>)
  qed
next
  case False
  let ?wc1 = "wc\<lparr>Total := Total wc + of_nat (length p)\<rparr>"
  let ?w1 = "PrintProgress env ?wc1 w"
  have old: "(case files ?w1 dst of None \<Rightarrow> [] | Some c \<Rightarrow> c) = old" using assms(2) by simp
  have run: "(case file_Write env dst p ?w1 of
        (Some ew, w2) \<Rightarrow> (Some ew, ?wc1, w2)
      | (None, w2) \<Rightarrow>
          (case er of
             None \<Rightarrow> io_Copy env dst rs ?wc1 w2
           | Some e \<Rightarrow> (if e = EOF then None else Some e, ?wc1, w2))) = (r, wc', w')"
    using assms(1) io_Copy_Cons_nonempty [OF False, of env dst er rs wc w] by simp
  show ?thesis
  proof (cases "write_result env dst old p")
    case None
    define w2 where "w2 = sys (FileWrite dst p) ((files ?w1)(dst \<mapsto> old @ p)) ?w1"
    have fw: "file_Write env dst p ?w1 = (None, w2)"
      using None old by (simp add: file_Write_def Let_def w2_def)
    have f2: "files w2 = (files w)(dst \<mapsto> old @ p)" by (simp add: w2_def)
    have t2: "trace w2 = trace w @ [(FileWrite dst p, files w2)]" by (simp add: w2_def)
    show ?thesis
    proof (cases er)
      case None': None
      from run fw None' have "io_Copy env dst rs ?wc1 w2 = (r, wc', w')" by simp
      then show ?thesis
        using None' None f2 t2 False by (intro continue [of w2]) simp_all
    next
      case (Some e)
      from run fw Some have res: "r = (if e = EOF then None else Some e)" "wc' = ?wc1" "w' = w2"
        by simp_all
      show ?thesis
      proof (rule stop [of p])
        show "files w' = (if p = [] then files w else (files w)(dst \<mapsto> old @ p))"
          using res f2 False by simp
        show "trace w' = trace w @ (if p = [] then [] else [(FileWrite dst p, files w')])"
          using res t2 False by simp
        show "wc' = ?wc1" by (rule res)
        show "p = p \<and> er = Some EOF" if "r = None" using that res Some by (simp split: if_splits)
        show "p \<noteq> [] \<and> write_result env dst old p \<noteq> None \<or> p = p \<and> er = r \<and> r \<noteq> Some EOF"
          if "r \<noteq> None"
          using that res Some by (simp split: if_splits)
      qed
    qed
  next
    case (Some ne)
    obtain n e where ne: "ne = (n, e)" by (cases ne)
    define w2 where "w2 = sys (FileWrite dst (take n p)) ((files ?w1)(dst \<mapsto> old @ take n p)) ?w1"
    have fw: "file_Write env dst p ?w1 = (Some e, w2)"
      using Some ne old by (simp add: file_Write_def Let_def w2_def)
    have f2: "files w2 = (files w)(dst \<mapsto> old @ take n p)" by (simp add: w2_def)
    have t2: "trace w2 = trace w @ [(FileWrite dst (take n p), files w2)]" by (simp add: w2_def)
    from run fw have res: "r = Some e" "wc' = ?wc1" "w' = w2" by simp_all
    show ?thesis
    proof (rule stop [of "take n p"])
      show "files w' = (if p = [] then files w else (files w)(dst \<mapsto> old @ take n p))"
        using res f2 False by simp
      show "trace w' = trace w @ (if p = [] then [] else [(FileWrite dst (take n p), files w')])"
        using res t2 False by simp
      show "wc' = ?wc1" by (rule res)
      show "take n p = p \<and> er = Some EOF" if "r = None" using that res by simp
      show "p \<noteq> [] \<and> write_result env dst old p \<noteq> None
          \<or> take n p = p \<and> er = r \<and> r \<noteq> Some EOF" if "r \<noteq> None"
        using False Some by simp
    qed
  qed
qed


lemma io_Copy_trace:
  assumes "io_Copy env dst rs wc w = (r, wc', w')" and "files w dst = Some old"
  shows "\<exists>new. trace w' = trace w @ new
           \<and> (\<forall>(c, fs) \<in> set new. (\<exists>b. c = FileWrite dst b) \<and> (\<forall>p. p \<noteq> dst \<longrightarrow> fs p = files w p))
           \<and> (\<forall>p. p \<noteq> dst \<longrightarrow> files w' p = files w p)
           \<and> files w' dst = Some (old @ bytes_written dst new)"
  using assms
proof (induction rs arbitrary: wc w old)
  case Nil
  then show ?case by simp
next
  case (Cons a rs)
  obtain p er where a: "a = (p, er)" by (cases a)
  from Cons.prems(1) [unfolded a] Cons.prems(2) show ?case
  proof (cases rule: io_Copy_step)
    case (stop b')
    let ?new = "if p = [] then [] else [(FileWrite dst b', files w')]"
    have "trace w' = trace w @ ?new" by (rule stop(2))
    moreover have "\<forall>(c, fs) \<in> set ?new. (\<exists>b. c = FileWrite dst b) \<and> (\<forall>p. p \<noteq> dst \<longrightarrow> fs p = files w p)"
      using stop(1) by simp
    moreover have "\<forall>p. p \<noteq> dst \<longrightarrow> files w' p = files w p" using stop(1) by simp
    moreover have "files w' dst = Some (old @ bytes_written dst ?new)"
      using stop(1) Cons.prems(2) by simp
    ultimately show ?thesis by (intro exI [of _ ?new] conjI)
  next
    case (continue w2)
    have f2: "files w2 dst = Some (old @ p)" using continue(3) Cons.prems(2) by simp
    have same: "\<forall>q. q \<noteq> dst \<longrightarrow> files w2 q = files w q" using continue(3) by simp
    from Cons.IH [OF continue(5) f2] obtain new where new:
      "trace w' = trace w2 @ new"
      "\<forall>(c, fs) \<in> set new. (\<exists>b. c = FileWrite dst b) \<and> (\<forall>p. p \<noteq> dst \<longrightarrow> fs p = files w2 p)"
      "\<forall>p. p \<noteq> dst \<longrightarrow> files w' p = files w2 p"
      "files w' dst = Some ((old @ p) @ bytes_written dst new)"
      by blast
    let ?first = "if p = [] then [] else [(FileWrite dst p, files w2)]"
    have "trace w' = trace w @ (?first @ new)" using new(1) continue(4) by simp
    moreover have "\<forall>(c, fs) \<in> set (?first @ new).
        (\<exists>b. c = FileWrite dst b) \<and> (\<forall>p. p \<noteq> dst \<longrightarrow> fs p = files w p)"
      using new(2) same by auto
    moreover have "\<forall>p. p \<noteq> dst \<longrightarrow> files w' p = files w p" using new(3) same by simp
    moreover have "files w' dst = Some (old @ bytes_written dst (?first @ new))"
      using new(4) by simp
    ultimately show ?thesis by (intro exI [of _ "?first @ new"] conjI)
  qed
qed

lemma io_Copy_complete:
  assumes "io_Copy env dst rs wc w = (None, wc', w')" and "files w dst = Some old"
  shows "files w' dst = Some (old @ body_bytes rs) \<and> body_error rs = None
           \<and> Total wc' = Total wc + of_nat (length (body_bytes rs))"
  using assms
proof (induction rs arbitrary: wc w old)
  case Nil
  then show ?case by simp
next
  case (Cons a rs)
  obtain p er where a: "a = (p, er)" by (cases a)
  from Cons.prems(1) [unfolded a] Cons.prems(2) show ?case
  proof (cases rule: io_Copy_step)
    case (stop b')
    then show ?thesis using Cons.prems(2) by (simp add: a)
  next
    case (continue w2)
    have f2: "files w2 dst = Some (old @ p)" using continue(3) Cons.prems(2) by simp
    from Cons.IH [OF continue(5) f2] continue(1) show ?thesis by (simp add: a)
  qed
qed

lemma io_Copy_writes_succeed:
  assumes "io_Copy env dst rs wc w = (r, wc', w')" and "files w dst = Some old"
    and "\<forall>c b. write_result env dst c b = None"
  shows "r = body_error rs \<and> files w' dst = Some (old @ body_bytes rs)
           \<and> Total wc' = Total wc + of_nat (length (body_bytes rs))"
  using assms(1,2)
proof (induction rs arbitrary: wc w old)
  case Nil
  then show ?case by simp
next
  case (Cons a rs)
  obtain p er where a: "a = (p, er)" by (cases a)
  from Cons.prems(1) [unfolded a] Cons.prems(2) show ?case
  proof (cases rule: io_Copy_step)
    case (stop b')
    show ?thesis
    proof (cases r)
      case None
      with stop Cons.prems(2) show ?thesis by (simp add: a)
    next
      case (Some e)
      with stop(5) assms(3) have "b' = p" "er = Some e" "e \<noteq> EOF" by auto
      then show ?thesis using stop Some Cons.prems(2) by (simp add: a)
    qed
  next
    case (continue w2)
    have f2: "files w2 dst = Some (old @ p)" using continue(3) Cons.prems(2) by simp
    from Cons.IH [OF continue(5) f2] continue(1) show ?thesis by (simp add: a)
  qed
qed


lemma staging_not_final: "staging_path dir name \<noteq> final_path dir name"
  by (simp add: staging_path_def final_path_def)

lemma trace_since_append: "trace w' = trace w @ new \<Longrightarrow> trace_since w w' = new"
  by (simp add: trace_since_def)

lemma DownloadFile_cases:
  assumes "getFileName env url = Returns name"
    and "DownloadFile env url dir w = (res, c, w')"
  obtains
    (create_fails) e where
      "create_result env (staging_path dir name) (files w) = Some e"
      "res = Returns (Some e)" "c = None"
      "w' = called (Create (staging_path dir name)) w"
  | (get_fails) e where
      "create_result env (staging_path dir name) (files w) = None"
      "get_result env url = Inl e"
      "res = Returns (Some e)" "c = None"
      "w' = called (Get url)
              (sys (Create (staging_path dir name)) ((files w)(staging_path dir name \<mapsto> [])) w)"
  | (copy_fails) rs e counter where
      "create_result env (staging_path dir name) (files w) = None"
      "get_result env url = Inr rs"
      "io_Copy env (staging_path dir name) rs \<lparr>Total = 0\<rparr>
         (called (Get url)
            (sys (Create (staging_path dir name)) ((files w)(staging_path dir name \<mapsto> [])) w))
       = (Some e, counter, w')"
      "res = Returns (Some e)" "c = Some counter"
  | (rename_fails) rs e counter w3 where
      "create_result env (staging_path dir name) (files w) = None"
      "get_result env url = Inr rs"
      "io_Copy env (staging_path dir name) rs \<lparr>Total = 0\<rparr>
         (called (Get url)
            (sys (Create (staging_path dir name)) ((files w)(staging_path dir name \<mapsto> [])) w))
       = (None, counter, w3)"
      "rename_result env (staging_path dir name) (final_path dir name) (files w3) = Some e"
      "res = Returns (Some e)" "c = Some counter"
      "w' = called (Rename (staging_path dir name) (final_path dir name)) (print NL w3)"
  | (renamed) rs counter w3 where
      "create_result env (staging_path dir name) (files w) = None"
      "get_result env url = Inr rs"
      "io_Copy env (staging_path dir name) rs \<lparr>Total = 0\<rparr>
         (called (Get url)
            (sys (Create (staging_path dir name)) ((files w)(staging_path dir name \<mapsto> [])) w))
       = (None, counter, w3)"
      "rename_result env (staging_path dir name) (final_path dir name) (files w3) = None"
      "res = Returns None" "c = Some counter"
      "w' = sys (Rename (staging_path dir name) (final_path dir name))
              (((files w3)(final_path dir name := files w3 (staging_path dir name)))
                 (staging_path dir name := None)) (print NL w3)"
proof -
  let ?tmp = "staging_path dir name" and ?fin = "final_path dir name"
  let ?w1 = "sys (Create ?tmp) ((files w)(?tmp \<mapsto> [])) w"
  let ?w2 = "called (Get url) ?w1"
  show thesis
  proof (cases "create_result env ?tmp (files w)")
    case (Some e)
    with assms show thesis
      by (intro create_fails [of e]) (simp_all add: DownloadFile_def os_Create_def)
  next
    case cr: None
    show thesis
    proof (cases "get_result env url")
      case (Inl e)
      with assms cr show thesis
        by (intro get_fails [of e]) (simp_all add: DownloadFile_def os_Create_def http_Get_def)
    next
      case (Inr rs)
      obtain r counter w3 where cp: "io_Copy env ?tmp rs \<lparr>Total = 0\<rparr> ?w2 = (r, counter, w3)"
        by (cases "io_Copy env ?tmp rs \<lparr>Total = 0\<rparr> ?w2")
      show thesis
      proof (cases r)
        case (Some e)
        with assms cr Inr cp show thesis
          by (intro copy_fails [of rs e counter])
            (simp_all add: DownloadFile_def os_Create_def http_Get_def)
      next
        case cpn: None
        show thesis
        proof (cases "rename_result env ?tmp ?fin (files w3)")
          case (Some e)
          with assms cr Inr cp cpn show thesis
            by (intro rename_fails [of rs counter w3 e])
              (simp_all add: DownloadFile_def os_Create_def http_Get_def os_Rename_def)
        next
          case None
          with assms cr Inr cp cpn show thesis
            by (intro renamed [of rs counter w3])
              (simp_all add: DownloadFile_def os_Create_def http_Get_def os_Rename_def
                staging_not_final)
        qed
      qed
    qed
  qed
qed

subsection \<open>DownloadFile and main\<close>

lemma DownloadFile_first_call:
  assumes "getFileName env url = Returns name"
  shows "\<exists>fs rest. trace (snd (snd (DownloadFile env url dir w)))
           = trace w @ (Create (staging_path dir name), fs) # rest"
proof -
  obtain res c w' where run: "DownloadFile env url dir w = (res, c, w')"
    by (cases "DownloadFile env url dir w")
  let ?tmp = "staging_path dir name"
  let ?w2 = "called (Get url) (sys (Create ?tmp) ((files w)(?tmp \<mapsto> [])) w)"
  have f2: "files ?w2 ?tmp = Some []" by simp
  from assms run have "\<exists>fs rest. trace w' = trace w @ (Create ?tmp, fs) # rest"
  proof (cases rule: DownloadFile_cases)
    case (copy_fails rs e counter)
    from io_Copy_trace [OF copy_fails(3) f2] show ?thesis by auto
  next
    case (rename_fails rs e counter w3)
    from io_Copy_trace [OF rename_fails(3) f2] rename_fails(7) show ?thesis by auto
  next
    case (renamed rs counter w3)
    from io_Copy_trace [OF renamed(3) f2] renamed(7) show ?thesis by auto
  qed auto
  with run show ?thesis by simp
qed

lemma main_three_args:
  assumes "length Args = 3"
  shows "main env Args w =
     (case run_callbacks env (Args ! 2) (visit_result env (Args ! 1)) (crawl_start env Args w) of
        (Panics e, w4) \<Rightarrow> (PanicExit e, w4)
      | (Returns u, w4) \<Rightarrow> (ExitCode 0, print (''Grabbing completed!'' @ NL) w4))"
  using assms by (simp add: main_def colly_Visit_def crawl_start_def Let_def)

subsection \<open>The counter\<close>

lemma Total_add_unat:
  fixes t :: uint64
  assumes "unat t + n < 2 ^ 64"
  shows "unat (t + of_nat n) = unat t + n"
proof -
  have n: "unat (of_nat n :: uint64) = n" using assms by (simp add: unat_of_nat)
  have "unat t + unat (of_nat n :: uint64) < 2 ^ LENGTH(64)" using assms n by simp
  then have "unat (t + of_nat n) = unat t + unat (of_nat n :: uint64)"
    by (simp only: unat_add_lem)
  with n show ?thesis by simp
qed

lemma body_bytes_replicate:
  "body_bytes (replicate n (c, None)) = concat (replicate n c)"
  by (induction n) auto

lemma length_concat_replicate: "length (concat (replicate n c)) = n * length c"
  by (induction n) auto

lemma body_error_replicate: "body_error (replicate n (c, None)) = None"
  by (induction n) auto

lemma length_body_bytes_stream: "length (body_bytes (stream n)) = n * 32768"
  by (simp add: stream_def body_bytes_replicate length_concat_replicate chunk32k_def)

lemma body_error_stream: "body_error (stream n) = None"
  by (simp add: stream_def body_error_replicate)

lemma stream_Suc: "stream n @ [(chunk32k, None)] = stream (Suc n)"
  by (simp add: stream_def replicate_append_same)

text \<open>The counter along the copy loop, as long as it does not wrap around.\<close>

lemma io_Copy_Total_bounds:
  assumes "unat (Total wc) + length (body_bytes rs) < 2 ^ 64"
  shows "unat (Total wc) \<le> unat (Total (fst (snd (io_Copy env dst rs wc w))))
       \<and> unat (Total (fst (snd (io_Copy env dst rs wc w)))) \<le> unat (Total wc) + length (body_bytes rs)"
  using assms
proof (induction rs arbitrary: wc w)
  case Nil
  then show ?case by simp
next
  case (Cons a rs)
  obtain p er where a: "a = (p, er)" by (cases a)
  show ?case
  proof (cases "p = []")
    case True
    show ?thesis
    proof (cases er)
      case None
      with Cons.prems True a have "unat (Total wc) + length (body_bytes rs) < 2 ^ 64" by simp
      from Cons.IH [OF this, of w] show ?thesis using True None a
        by (simp add: io_Copy_Cons_empty)
    next
      case (Some e)
      then show ?thesis using True a by (simp add: io_Copy_Cons_empty)
    qed
  next
    case False
    let ?wc1 = "wc\<lparr>Total := Total wc + of_nat (length p)\<rparr>"
    let ?w1 = "PrintProgress env ?wc1 w"
    have lp: "length p \<le> length (body_bytes (a # rs))" by (cases er) (simp_all add: a)
    with Cons.prems have "unat (Total wc) + length p < 2 ^ 64" by simp
    then have t1: "unat (Total ?wc1) = unat (Total wc) + length p"
      by (simp add: Total_add_unat)
    obtain rw w2 where fw: "file_Write env dst p ?w1 = (rw, w2)"
      by (cases "file_Write env dst p ?w1")
    show ?thesis
    proof (cases "rw = None \<and> er = None")
      case True
      then have run: "io_Copy env dst (a # rs) wc w = io_Copy env dst rs ?wc1 w2"
        using False fw by (simp add: a io_Copy_Cons_nonempty)
      have "unat (Total ?wc1) + length (body_bytes rs) < 2 ^ 64"
        using Cons.prems True t1 by (simp add: a)
      from Cons.IH [OF this, of w2] show ?thesis
        unfolding run using t1 True by (simp add: a)
    next
      case False': False
      then have "fst (snd (io_Copy env dst (a # rs) wc w)) = ?wc1"
        using False fw by (auto simp: a io_Copy_Cons_nonempty split: option.splits)
      then show ?thesis using t1 lp by simp
    qed
  qed
qed

lemma io_Copy_Total_prefix:
  assumes "unat (Total wc) + length (body_bytes (rs1 @ rs2)) < 2 ^ 64"
  shows "unat (Total (fst (snd (io_Copy env dst rs1 wc w))))
       \<le> unat (Total (fst (snd (io_Copy env dst (rs1 @ rs2) wc w))))"
  using assms
proof (induction rs1 arbitrary: wc w)
  case Nil
  then show ?case using io_Copy_Total_bounds [of wc rs2 env dst w] by simp
next
  case (Cons a rs)
  obtain p er where a: "a = (p, er)" by (cases a)
  show ?case
  proof (cases "p = []")
    case True
    show ?thesis
    proof (cases er)
      case None
      with Cons.prems True a have "unat (Total wc) + length (body_bytes (rs @ rs2)) < 2 ^ 64"
        by simp
      from Cons.IH [OF this, of w] show ?thesis using True None a
        by (simp add: io_Copy_Cons_empty)
    next
      case (Some e)
      then show ?thesis using True a by (simp add: io_Copy_Cons_empty)
    qed
  next
    case False
    let ?wc1 = "wc\<lparr>Total := Total wc + of_nat (length p)\<rparr>"
    let ?w1 = "PrintProgress env ?wc1 w"
    have lp: "length p \<le> length (body_bytes ((a # rs) @ rs2))" by (cases er) (simp_all add: a)
    with Cons.prems have "unat (Total wc) + length p < 2 ^ 64" by simp
    then have t1: "unat (Total ?wc1) = unat (Total wc) + length p"
      by (simp add: Total_add_unat)
    obtain rw w2 where fw: "file_Write env dst p ?w1 = (rw, w2)"
      by (cases "file_Write env dst p ?w1")
    show ?thesis
    proof (cases "rw = None \<and> er = None")
      case True
      then have run: "io_Copy env dst (a # rs) wc w = io_Copy env dst rs ?wc1 w2"
        "io_Copy env dst ((a # rs) @ rs2) wc w = io_Copy env dst (rs @ rs2) ?wc1 w2"
        using False fw by (simp_all add: a io_Copy_Cons_nonempty)
      have "unat (Total ?wc1) + length (body_bytes (rs @ rs2)) < 2 ^ 64"
        using Cons.prems True t1 by (simp add: a)
      from Cons.IH [OF this, of w2] show ?thesis
        unfolding run .
    next
      case False': False
      then have "fst (snd (io_Copy env dst (a # rs) wc w)) = ?wc1"
        "fst (snd (io_Copy env dst ((a # rs) @ rs2) wc w)) = ?wc1"
        using False fw by (auto simp: a io_Copy_Cons_nonempty split: option.splits)
      then show ?thesis by simp
    qed
  qed
qed

lemma io_Copy_stream_Total:
  "Total (fst (snd (io_Copy (fair_env body imgs) p (stream n) \<lparr>Total = 0\<rparr> (copy_start p))))
     = of_nat (n * 32768)"
proof -
  let ?X = "io_Copy (fair_env body imgs) p (stream n) \<lparr>Total = 0\<rparr> (copy_start p)"
  have run: "?X = (fst ?X, fst (snd ?X), snd (snd ?X))" by simp
  have f: "files (copy_start p) p = Some []" by (simp add: copy_start_def)
  have nofail: "\<forall>c b. write_result (fair_env body imgs) p c b = None" by (simp add: fair_env_def)
  from io_Copy_writes_succeed [OF run f nofail] show ?thesis
    by (simp add: length_body_bytes_stream)
qed

lemma DownloadFile_returns_name:
  "DownloadFile env url dir w = (Returns r, c, w') \<Longrightarrow> \<exists>name. getFileName env url = Returns name"
  by (cases "getFileName env url") (auto simp: DownloadFile_def)

lemma files_copy_start:
  "files (called (Get url) (sys (Create p) ((files w)(p \<mapsto> [])) w)) p = Some []"
  by simp

lemma DownloadFile_success_Total:
  assumes "DownloadFile env url dir w = (Returns None, c, w')"
  shows "\<exists>rs counter. get_result env url = Inr rs \<and> c = Some counter \<and> body_error rs = None
           \<and> Total counter = of_nat (length (body_bytes rs))"
proof -
  from DownloadFile_returns_name [OF assms] obtain name where
    name: "getFileName env url = Returns name" by blast
  from name assms show ?thesis
  proof (cases rule: DownloadFile_cases)
    case (renamed rs counter w3)
    from io_Copy_complete [OF renamed(3) files_copy_start] renamed(2,6) show ?thesis by simp
  qed simp_all
qed

lemma DownloadFile_fair:
  assumes "getFileName (fair_env rs imgs) url = Returns name" and "body_error rs = None"
  shows "fst (DownloadFile (fair_env rs imgs) url dir w) = Returns None"
proof -
  obtain res c w' where run: "DownloadFile (fair_env rs imgs) url dir w = (res, c, w')"
    by (cases "DownloadFile (fair_env rs imgs) url dir w")
  have nofail: "\<forall>c b. write_result (fair_env rs imgs) (staging_path dir name) c b = None"
    by (simp add: fair_env_def)
  from assms(1) run have "res = Returns None"
  proof (cases rule: DownloadFile_cases)
    case (copy_fails rs' e counter)
    then have "rs' = rs" by (simp add: fair_env_def)
    with io_Copy_writes_succeed [OF copy_fails(3) files_copy_start nofail] assms(2)
    show ?thesis by simp
  qed (simp_all add: fair_env_def)
  with run show ?thesis by simp
qed

subsection \<open>What a Transfer leaves on disk\<close>

lemma DownloadFile_failure_staging:
  assumes "getFileName env url = Returns name"
    and "DownloadFile env url dir w = (res, c, w')"
    and "res \<noteq> Returns None"
    and "create_result env (staging_path dir name) (files w) = None"
  shows "files w' (staging_path dir name)
           = Some (bytes_written (staging_path dir name) (trace_since w w'))
       \<and> files w' (final_path dir name) = files w (final_path dir name)"
proof -
  let ?tmp = "staging_path dir name" and ?fin = "final_path dir name"
  let ?w2 = "called (Get url) (sys (Create ?tmp) ((files w)(?tmp \<mapsto> [])) w)"
  have ne: "?fin \<noteq> ?tmp" using staging_not_final [of dir name] by simp
  have bw: "bytes_written ?tmp ((Create ?tmp, fs1) # (Get url, fs2) # new)
      = bytes_written ?tmp new" for fs1 fs2 new by simp
  from assms(1,2) show ?thesis
  proof (cases rule: DownloadFile_cases)
    case (create_fails e)
    with assms(4) show ?thesis by simp
  next
    case (get_fails e)
    then show ?thesis using ne by (simp add: trace_since_def)
  next
    case (copy_fails rs e counter)
    from io_Copy_trace [OF copy_fails(3) files_copy_start] obtain new where new:
      "trace w' = trace ?w2 @ new" "\<forall>p. p \<noteq> ?tmp \<longrightarrow> files w' p = files ?w2 p"
      "files w' ?tmp = Some ([] @ bytes_written ?tmp new)" by blast
    from new(1) have "trace_since w w' = (Create ?tmp, (files w)(?tmp \<mapsto> []))
        # (Get url, (files w)(?tmp \<mapsto> [])) # new"
      by (simp add: trace_since_def)
    with new(2,3) ne show ?thesis by simp
  next
    case (rename_fails rs e counter w3)
    from io_Copy_trace [OF rename_fails(3) files_copy_start] obtain new where new:
      "trace w3 = trace ?w2 @ new" "\<forall>p. p \<noteq> ?tmp \<longrightarrow> files w3 p = files ?w2 p"
      "files w3 ?tmp = Some ([] @ bytes_written ?tmp new)" by blast
    from new(1) rename_fails(7) have "trace_since w w' = (Create ?tmp, (files w)(?tmp \<mapsto> []))
        # (Get url, (files w)(?tmp \<mapsto> [])) # new @ [(Rename ?tmp ?fin, files w3)]"
      by (simp add: trace_since_def)
    moreover have "bytes_written ?tmp (new @ [(Rename ?tmp ?fin, files w3)])
        = bytes_written ?tmp new"
      by (induction new rule: bytes_written.induct) simp_all
    ultimately show ?thesis using new(2,3) ne rename_fails(7) by simp
  next
    case (renamed rs counter w3)
    with assms(3) show ?thesis by simp
  qed
qed

lemma DownloadFile_success_files:
  assumes "getFileName env url = Returns name"
    and "DownloadFile env url dir w = (Returns None, c, w')"
  shows "files w' (staging_path dir name) = None
       \<and> (\<exists>rs. get_result env url = Inr rs \<and> body_error rs = None
             \<and> files w' (final_path dir name) = Some (body_bytes rs))"
  using assms
proof (cases rule: DownloadFile_cases)
  case (renamed rs counter w3)
  from io_Copy_complete [OF renamed(3) files_copy_start] renamed(2,7)
  show ?thesis using staging_not_final [of dir name] by simp
qed simp_all

subsection \<open>The trace of a Transfer\<close>

lemma fair_env_sel [simp]:
  "url_Parse (fair_env body imgs) = parse_table"
  "create_result (fair_env body imgs) p fs = None"
  "get_result (fair_env body imgs) u = Inr body"
  "write_result (fair_env body imgs) p old b = None"
  "rename_result (fair_env body imgs) p q fs = None"
  "stat_result (fair_env body imgs) p = None"
  "os_IsNotExist (fair_env body imgs) e = (e = Some (Error ''no such file or directory''))"
  "mkdir_result (fair_env body imgs) p m = None"
  "visit_result (fair_env body imgs) u = imgs"
  by (simp_all add: fair_env_def)


lemma io_Copy_last_state:
  assumes "io_Copy env dst rs wc w = (r, wc', w')" and "files w dst = Some old"
    and "trace w \<noteq> []" and "files w = snd (last (trace w))"
  shows "trace w' \<noteq> [] \<and> files w' = snd (last (trace w'))"
  using assms
proof (induction rs arbitrary: wc w old)
  case Nil
  then show ?case by simp
next
  case (Cons a rs)
  obtain p er where a: "a = (p, er)" by (cases a)
  from Cons.prems(1) [unfolded a] Cons.prems(2) show ?case
  proof (cases rule: io_Copy_step)
    case (stop b')
    then show ?thesis using Cons.prems(3,4) by (cases "p = []") simp_all
  next
    case (continue w2)
    have f2: "files w2 dst = Some (old @ p)" using continue(3) Cons.prems(2) by simp
    have "trace w2 \<noteq> [] \<and> files w2 = snd (last (trace w2))"
      using continue(3,4) Cons.prems(3,4) by (cases "p = []") simp_all
    with Cons.IH [OF continue(5) f2] show ?thesis by simp
  qed
qed

text \<open>The calls of a Transfer: the creation, the request, the writes to the staging
  file, the rename.\<close>

lemma DownloadFile_trace:
  assumes "getFileName env url = Returns name"
    and "DownloadFile env url dir w = (res, c, w')"
  obtains (no_rename) calls where
      "trace w' = trace w @ calls"
      "res \<noteq> Returns None"
      "\<forall>(cl, fs) \<in> set calls.
         (cl = Create (staging_path dir name) \<or> cl = Get url
            \<or> (\<exists>b. cl = FileWrite (staging_path dir name) b))
         \<and> (\<forall>p. p \<noteq> staging_path dir name \<longrightarrow> fs p = files w p)"
      "calls \<noteq> []" "files w' = snd (last calls)"
  | (rename) calls rs where
      "trace w' = trace w @ calls
         @ [(Rename (staging_path dir name) (final_path dir name), files w')]"
      "\<forall>(cl, fs) \<in> set calls.
         (cl = Create (staging_path dir name) \<or> cl = Get url
            \<or> (\<exists>b. cl = FileWrite (staging_path dir name) b))
         \<and> (\<forall>p. p \<noteq> staging_path dir name \<longrightarrow> fs p = files w p)"
      "\<forall>p. p \<noteq> staging_path dir name \<and> p \<noteq> final_path dir name \<longrightarrow> files w' p = files w p"
      "get_result env url = Inr rs" "body_error rs = None"
      "res = Returns None \<Longrightarrow> files w' (final_path dir name) = Some (body_bytes rs)"
      "res \<noteq> Returns None \<Longrightarrow> files w' (final_path dir name) = files w (final_path dir name)"
proof -
  let ?tmp = "staging_path dir name" and ?fin = "final_path dir name"
  let ?fs1 = "(files w)(?tmp \<mapsto> [])"
  let ?w2 = "called (Get url) (sys (Create ?tmp) ?fs1 w)"
  let ?ok = "\<lambda>(cl, fs). (cl = Create ?tmp \<or> cl = Get url \<or> (\<exists>b. cl = FileWrite ?tmp b))
         \<and> (\<forall>p. p \<noteq> ?tmp \<longrightarrow> fs p = files w p)"
  have ne: "?fin \<noteq> ?tmp" using staging_not_final [of dir name] by simp
  have l2: "trace ?w2 \<noteq> []" "files ?w2 = snd (last (trace ?w2))" by simp_all
  have ok_new: "\<forall>x \<in> set ((Create ?tmp, ?fs1) # (Get url, ?fs1) # new). ?ok x"
    if "\<forall>(c, fs) \<in> set new. (\<exists>b. c = FileWrite ?tmp b) \<and> (\<forall>p. p \<noteq> ?tmp \<longrightarrow> fs p = files ?w2 p)"
    for new using that by auto
  from assms show thesis
  proof (cases rule: DownloadFile_cases)
    case (create_fails e)
    show thesis
      by (rule no_rename [of "[(Create ?tmp, files w)]"]) (use create_fails in simp_all)
  next
    case (get_fails e)
    show thesis
      by (rule no_rename [of "[(Create ?tmp, ?fs1), (Get url, ?fs1)]"]) (use get_fails in simp_all)
  next
    case (copy_fails rs e counter)
    from io_Copy_trace [OF copy_fails(3) files_copy_start] obtain new where new:
      "trace w' = trace ?w2 @ new"
      "\<forall>(c, fs) \<in> set new. (\<exists>b. c = FileWrite ?tmp b) \<and> (\<forall>p. p \<noteq> ?tmp \<longrightarrow> fs p = files ?w2 p)"
      by blast
    from io_Copy_last_state [OF copy_fails(3) files_copy_start l2]
    have last: "files w' = snd (last (trace w'))" by simp
    show thesis
    proof (rule no_rename [of "(Create ?tmp, ?fs1) # (Get url, ?fs1) # new"])
      show "trace w' = trace w @ (Create ?tmp, ?fs1) # (Get url, ?fs1) # new"
        using new(1) by simp
      then show "files w' = snd (last ((Create ?tmp, ?fs1) # (Get url, ?fs1) # new))"
        using last by simp
      show "\<forall>x \<in> set ((Create ?tmp, ?fs1) # (Get url, ?fs1) # new). ?ok x"
        using new(2) by (rule ok_new)
    qed (use copy_fails in simp_all)
  next
    case (rename_fails rs e counter w3)
    from io_Copy_trace [OF rename_fails(3) files_copy_start] obtain new where new:
      "trace w3 = trace ?w2 @ new"
      "\<forall>(c, fs) \<in> set new. (\<exists>b. c = FileWrite ?tmp b) \<and> (\<forall>p. p \<noteq> ?tmp \<longrightarrow> fs p = files ?w2 p)"
      "\<forall>p. p \<noteq> ?tmp \<longrightarrow> files w3 p = files ?w2 p"
      by blast
    from io_Copy_complete [OF rename_fails(3) files_copy_start]
    have body: "body_error rs = None" by simp
    have fw: "files w' = files w3" using rename_fails(7) by simp
    show thesis
    proof (rule rename [of "(Create ?tmp, ?fs1) # (Get url, ?fs1) # new" rs])
      show "trace w' = trace w @ ((Create ?tmp, ?fs1) # (Get url, ?fs1) # new)
          @ [(Rename ?tmp ?fin, files w')]"
        using new(1) rename_fails(7) by simp
      show "\<forall>x \<in> set ((Create ?tmp, ?fs1) # (Get url, ?fs1) # new). ?ok x"
        using new(2) by (rule ok_new)
      show "\<forall>p. p \<noteq> ?tmp \<and> p \<noteq> ?fin \<longrightarrow> files w' p = files w p"
        using new(3) fw by simp
      show "files w' ?fin = files w ?fin" using new(3) fw ne by simp
    qed (use rename_fails body in simp_all)
  next
    case (renamed rs counter w3)
    from io_Copy_trace [OF renamed(3) files_copy_start] obtain new where new:
      "trace w3 = trace ?w2 @ new"
      "\<forall>(c, fs) \<in> set new. (\<exists>b. c = FileWrite ?tmp b) \<and> (\<forall>p. p \<noteq> ?tmp \<longrightarrow> fs p = files ?w2 p)"
      "\<forall>p. p \<noteq> ?tmp \<longrightarrow> files w3 p = files ?w2 p"
      by blast
    from io_Copy_complete [OF renamed(3) files_copy_start]
    have body: "files w3 ?tmp = Some (body_bytes rs)" "body_error rs = None" by simp_all
    have fw: "files w' = ((files w3)(?fin := files w3 ?tmp))(?tmp := None)"
      using renamed(7) by simp
    show thesis
    proof (rule rename [of "(Create ?tmp, ?fs1) # (Get url, ?fs1) # new" rs])
      show "trace w' = trace w @ ((Create ?tmp, ?fs1) # (Get url, ?fs1) # new)
          @ [(Rename ?tmp ?fin, files w')]"
        using new(1) renamed(7) by simp
      show "\<forall>x \<in> set ((Create ?tmp, ?fs1) # (Get url, ?fs1) # new). ?ok x"
        using new(2) by (rule ok_new)
      show "\<forall>p. p \<noteq> ?tmp \<and> p \<noteq> ?fin \<longrightarrow> files w' p = files w p"
        using new(3) fw by simp
      show "files w' ?fin = Some (body_bytes rs)" using fw ne body by simp
    qed (use renamed body in simp_all)
  qed
qed

subsection \<open>Failures\<close>

lemma io_Copy_append:
  assumes "list_all (\<lambda>(q, er). er = None) pre"
    and "io_Copy env dst pre wc w = (None, wc1, w1)"
  shows "io_Copy env dst (pre @ rs) wc w = io_Copy env dst rs wc1 w1"
  using assms
proof (induction pre arbitrary: wc w)
  case Nil
  then show ?case by simp
next
  case (Cons a pre)
  obtain p where a: "a = (p, None)" using Cons.prems(1) by (cases a) simp
  have rest: "list_all (\<lambda>(q, er). er = None) pre" using Cons.prems(1) by simp
  show ?case
  proof (cases "p = []")
    case True
    with Cons.prems(2) have "io_Copy env dst pre wc w = (None, wc1, w1)"
      by (simp add: a io_Copy_Cons_empty)
    from Cons.IH [OF rest this] show ?thesis using True by (simp add: a io_Copy_Cons_empty)
  next
    case False
    let ?wc1 = "wc\<lparr>Total := Total wc + of_nat (length p)\<rparr>"
    obtain rw w2 where fw: "file_Write env dst p (PrintProgress env ?wc1 w) = (rw, w2)"
      by (cases "file_Write env dst p (PrintProgress env ?wc1 w)")
    from Cons.prems(2) False fw have "rw = None"
      by (cases rw) (simp_all add: a io_Copy_Cons_nonempty)
    with Cons.prems(2) False fw have "io_Copy env dst pre ?wc1 w2 = (None, wc1, w1)"
      by (simp add: a io_Copy_Cons_nonempty)
    from Cons.IH [OF rest this] show ?thesis
      using False fw \<open>rw = None\<close> by (simp add: a io_Copy_Cons_nonempty)
  qed
qed

lemma io_Copy_write_fails:
  assumes "p \<noteq> []" and "files w dst = Some old" and "write_result env dst old p = Some (n, e)"
  shows "fst (io_Copy env dst ((p, er) # rs) wc w) = Some e
       \<and> files (snd (snd (io_Copy env dst ((p, er) # rs) wc w))) dst = Some (old @ take n p)"
  using assms by (simp add: io_Copy_Cons_nonempty file_Write_def Let_def)

lemma run_callbacks_append:
  assumes "run_callbacks env dir pre w = (Returns (), w1)"
  shows "run_callbacks env dir (pre @ rest) w = run_callbacks env dir rest w1"
  using assms
proof (induction pre arbitrary: w)
  case Nil
  then show ?case by simp
next
  case (Cons u pre)
  obtain r w2 where cb: "OnHTML_callback env dir u w = (r, w2)"
    by (cases "OnHTML_callback env dir u w")
  with Cons.prems obtain x where "r = Returns x" by (cases r) simp_all
  with Cons cb show ?case by simp
qed

lemma main_exit_status:
  "(fst (main env Args w) = ExitCode 1) = (length Args \<noteq> 3)"
proof (cases "length Args = 3")
  case True
  obtain r w4 where "run_callbacks env (Args ! 2) (visit_result env (Args ! 1))
      (crawl_start env Args w) = (r, w4)"
    by (cases "run_callbacks env (Args ! 2) (visit_result env (Args ! 1)) (crawl_start env Args w)")
  with True show ?thesis by (cases r) (simp_all add: main_three_args)
next
  case False
  then show ?thesis by (simp add: main_def)
qed

lemma main_panics:
  assumes "length Args = 3"
    and "visit_result env (Args ! 1) = pre @ url # rest"
    and "run_callbacks env (Args ! 2) pre (crawl_start env Args w0) = (Returns (), w1)"
    and "DownloadFile env url (Args ! 2) (print (''image src:  '' @ url @ NL) w1)
           = (Returns (Some e), c, w')"
  shows "main env Args w0 = (PanicExit e, w')"
proof -
  have "OnHTML_callback env (Args ! 2) url w1 = (Panics e, w')"
    using assms(4) by (simp add: OnHTML_callback_def)
  then have "run_callbacks env (Args ! 2) (url # rest) w1 = (Panics e, w')" by simp
  with run_callbacks_append [OF assms(3), of "url # rest"]
  have "run_callbacks env (Args ! 2) (visit_result env (Args ! 1)) (crawl_start env Args w0)
      = (Panics e, w')" using assms(2) by simp
  then show ?thesis using assms(1) by (simp add: main_three_args)
qed

lemma DownloadFile_failure_final:
  assumes "getFileName env url = Returns name"
    and "DownloadFile env url dir w = (res, c, w')"
    and "res \<noteq> Returns None"
  shows "(\<exists>e. res = Returns (Some e))
       \<and> list_all (\<lambda>(cl, fs). fs (final_path dir name) = files w (final_path dir name))
           (trace_since w w')"
proof -
  let ?tmp = "staging_path dir name" and ?fin = "final_path dir name"
  have ne: "?fin \<noteq> ?tmp" using staging_not_final [of dir name] by simp
  have err: "\<exists>e. res = Returns (Some e)"
    using assms(1,2) by (cases rule: DownloadFile_cases) (use assms(3) in simp_all)
  have calls_ok: "list_all (\<lambda>(cl, fs). fs ?fin = files w ?fin) calls"
    if "\<forall>(cl, fs) \<in> set calls.
         (cl = Create ?tmp \<or> cl = Get url \<or> (\<exists>b. cl = FileWrite ?tmp b))
         \<and> (\<forall>p. p \<noteq> ?tmp \<longrightarrow> fs p = files w p)" for calls
    using that ne by (auto simp: list_all_iff)
  from assms(1,2) have "list_all (\<lambda>(cl, fs). fs ?fin = files w ?fin) (trace_since w w')"
  proof (cases rule: DownloadFile_trace)
    case (no_rename calls)
    from no_rename(1) have ts: "trace_since w w' = calls" by (rule trace_since_append)
    from calls_ok [OF no_rename(3)] show ?thesis unfolding ts .
  next
    case (rename calls rs)
    from rename(1) have ts: "trace_since w w' = calls @ [(Rename ?tmp ?fin, files w')]"
      by (rule trace_since_append)
    from calls_ok [OF rename(2)] rename(7) [OF assms(3)] show ?thesis unfolding ts by simp
  qed
  with err show ?thesis by simp
qed

lemma files_crawl_start [simp]: "files (crawl_start env Args w) = files w"
  by (simp add: crawl_start_def)

subsection \<open>main\<close>

lemma DownloadFile_extends:
  "\<exists>new. trace (snd (snd (DownloadFile env url dir w))) = trace w @ new"
proof (cases "getFileName env url")
  case (Returns name)
  from DownloadFile_first_call [OF this, of dir w] show ?thesis by blast
next
  case (Panics e)
  then show ?thesis by (simp add: DownloadFile_def)
qed

lemma snd_OnHTML_callback:
  "snd (OnHTML_callback env dir url w)
     = snd (snd (DownloadFile env url dir (print (''image src:  '' @ url @ NL) w)))"
  by (simp add: OnHTML_callback_def split: prod.splits outcome.splits option.splits)

lemma run_callbacks_extends:
  "\<exists>new. trace (snd (run_callbacks env dir urls w)) = trace w @ new"
proof (induction urls arbitrary: w)
  case Nil
  show ?case by simp
next
  case (Cons url urls)
  obtain r w1 where cb: "OnHTML_callback env dir url w = (r, w1)"
    by (cases "OnHTML_callback env dir url w")
  from DownloadFile_extends [of env url dir "print (''image src:  '' @ url @ NL) w"]
    snd_OnHTML_callback [of env dir url w] cb
  obtain new where new: "trace w1 = trace w @ new" by auto
  show ?case
  proof (cases r)
    case (Panics e)
    with cb new show ?thesis by simp
  next
    case (Returns u)
    from Cons.IH [of w1] obtain new' where
      "trace (snd (run_callbacks env dir urls w1)) = trace w1 @ new'" by blast
    with cb new Returns show ?thesis by simp
  qed
qed

lemma run_callbacks_first_call:
  assumes "getFileName env url = Returns name"
  shows "\<exists>fs new. trace (snd (run_callbacks env dir (url # urls) w))
           = trace w @ (Create (staging_path dir name), fs) # new"
proof -
  obtain r w1 where cb: "OnHTML_callback env dir url w = (r, w1)"
    by (cases "OnHTML_callback env dir url w")
  from DownloadFile_first_call [OF assms, of dir "print (''image src:  '' @ url @ NL) w"]
    snd_OnHTML_callback [of env dir url w] cb
  obtain fs new where new: "trace w1 = trace w @ (Create (staging_path dir name), fs) # new"
    by auto
  show ?thesis
  proof (cases r)
    case (Panics e)
    with cb new show ?thesis by simp
  next
    case (Returns u)
    from run_callbacks_extends [of env dir urls w1] obtain new' where
      "trace (snd (run_callbacks env dir urls w1)) = trace w1 @ new'" by blast
    with cb new Returns show ?thesis by simp
  qed
qed

lemma trace_crawl_start:
  "trace (crawl_start env Args w) = trace w
     @ (if os_IsNotExist env (stat_result env (Args ! 2))
        then [(Stat (Args ! 2), files w), (MkdirAll (Args ! 2) 448, files w),
              (Visit (Args ! 1), files w)]
        else [(Stat (Args ! 2), files w), (Visit (Args ! 1), files w)])"
  by (simp add: crawl_start_def)

lemma trace_main:
  assumes "length Args = 3"
  shows "trace (snd (main env Args w))
     = trace (snd (run_callbacks env (Args ! 2) (visit_result env (Args ! 1))
         (crawl_start env Args w)))"
proof -
  obtain r w4 where "run_callbacks env (Args ! 2) (visit_result env (Args ! 1))
      (crawl_start env Args w) = (r, w4)"
    by (cases "run_callbacks env (Args ! 2) (visit_result env (Args ! 1)) (crawl_start env Args w)")
  with assms show ?thesis by (cases r) (simp_all add: main_three_args)
qed

text \<open>Nothing reads what \<^verbatim>\<open>os.MkdirAll\<close> returned.\<close>

lemma calls_mkdir_result:
  "getFileName (env\<lparr>mkdir_result := r\<rparr>) url = getFileName env url"
  "os_Create (env\<lparr>mkdir_result := r\<rparr>) p w = os_Create env p w"
  "http_Get (env\<lparr>mkdir_result := r\<rparr>) url w = http_Get env url w"
  "file_Write (env\<lparr>mkdir_result := r\<rparr>) p b w = file_Write env p b w"
  "os_Rename (env\<lparr>mkdir_result := r\<rparr>) p q w = os_Rename env p q w"
  "PrintProgress (env\<lparr>mkdir_result := r\<rparr>) wc w = PrintProgress env wc w"
  by (simp_all add: getFileName_def os_Create_def http_Get_def file_Write_def os_Rename_def
      PrintProgress_def)

lemma io_Copy_mkdir_result:
  "io_Copy (env\<lparr>mkdir_result := r\<rparr>) dst rs wc w = io_Copy env dst rs wc w"
proof (induction rs arbitrary: wc w)
  case Nil
  show ?case by simp
next
  case (Cons a rs)
  obtain p er where a: "a = (p, er)" by (cases a)
  show ?case
  proof (cases "p = []")
    case True
    then show ?thesis by (cases er) (simp_all add: a io_Copy_Cons_empty Cons.IH)
  next
    case False
    show ?thesis
      unfolding a io_Copy_Cons_nonempty [OF False] calls_mkdir_result Cons.IH ..
  qed
qed

lemma DownloadFile_mkdir_result:
  "DownloadFile (env\<lparr>mkdir_result := r\<rparr>) url dir w = DownloadFile env url dir w"
  unfolding DownloadFile_def calls_mkdir_result io_Copy_mkdir_result ..

lemma run_callbacks_mkdir_result:
  "run_callbacks (env\<lparr>mkdir_result := r\<rparr>) dir urls w = run_callbacks env dir urls w"
proof (induction urls arbitrary: w)
  case Nil
  show ?case by simp
next
  case (Cons url urls)
  show ?case
    unfolding run_callbacks.simps OnHTML_callback_def DownloadFile_mkdir_result Cons.IH ..
qed

lemma main_mkdir_result:
  "main (env\<lparr>mkdir_result := r\<rparr>) Args w = main env Args w"
  by (simp add: main_def colly_Visit_def run_callbacks_mkdir_result Let_def)

lemma missing_dir_env_sel [simp]:
  "url_Parse missing_dir_env = parse_table"
  "create_result missing_dir_env p fs = Some (Error ''no such file or directory'')"
  "stat_result missing_dir_env p = Some (Error ''no such file or directory'')"
  "os_IsNotExist missing_dir_env e = (e = Some (Error ''no such file or directory''))"
  "mkdir_result missing_dir_env p m = Some (Error ''permission denied'')"
  "visit_result missing_dir_env u = [''https://x.test/img/42.png'']"
  by (simp_all add: missing_dir_env_def fair_env_def)

subsection \<open>The scenarios\<close>

lemma refused_env_sel [simp]:
  "url_Parse refused_env = parse_table"
  "create_result refused_env p fs = None"
  "get_result refused_env u = Inl (Error ''connection refused'')"
  by (simp_all add: refused_env_def fair_env_def)

lemma full_disk_env_sel [simp]:
  "url_Parse full_disk_env = parse_table"
  "create_result full_disk_env p fs = None"
  "get_result full_disk_env u = Inr [([1, 2, 3], None), ([4, 5], Some EOF)]"
  "write_result full_disk_env p old b
     = (if old = [] then None else Some (1, Error ''no space left on device''))"
  by (simp_all add: full_disk_env_def fair_env_def)

lemma rename_denied_env_sel [simp]:
  "url_Parse rename_denied_env = parse_table"
  "create_result rename_denied_env p fs = None"
  "get_result rename_denied_env u = Inr [([1, 2, 3], None), ([4, 5], Some EOF)]"
  "write_result rename_denied_env p old b = None"
  "rename_result rename_denied_env p q fs = Some (Error ''permission denied'')"
  by (simp_all add: rename_denied_env_def fair_env_def)

lemma getFileName_42:
  "url_Parse env = parse_table \<Longrightarrow> getFileName env ''https://x.test/img/42.png'' = Returns ''42.png''"
  by (simp add: getFileName_def parse_table_def)

section \<open>Properties\<close>

text \<open>
  C8. The progress observer is purely observational: for every chunk \<open>p\<close>,
  \<^verbatim>\<open>WriteCounter.Write(p)\<close> returns \<^verbatim>\<open>(len(p), nil)\<close>, never an error
  and never a short count; it leaves the files and the trace as they are, and the tee
  hands the copy loop exactly what the body's own read returned.
\<close>

theorem Write_returns_len_nil:
  "fst (Write env wc p w) = (length p, None)
   \<and> files (snd (snd (Write env wc p w))) = files w
   \<and> trace (snd (snd (Write env wc p w))) = trace w
   \<and> fst (TeeReader_Read env r wc w) = r"
  by (cases r) (simp add: Write_def Let_def TeeReader_Read_eq)

text \<open>
  C4, as stated: for every valid URL whose path has a non-empty final segment,
  \<^verbatim>\<open>getFileName\<close> returns exactly that segment. It splits the decoded
  path, so an escaped \<^verbatim>\<open>%2F\<close> separates segments: the path of
  \<^verbatim>\<open>https://example.com/a%2Fb.png\<close> ends in the segment
  \<^verbatim>\<open>a%2Fb.png\<close> and \<^verbatim>\<open>getFileName\<close> returns
  \<^verbatim>\<open>b.png\<close>; the path of \<^verbatim>\<open>https://example.com/pic.jpg%2F\<close>
  ends in \<^verbatim>\<open>pic.jpg%2F\<close> and \<^verbatim>\<open>getFileName\<close> returns the
  empty name.
\<close>

theorem getFileName_escaped_slash_counterexample:
  "final_segment (written_path ''https://example.com/a%2Fb.png'') = ''a%2Fb.png''
   \<and> url_Parse (fair_env [] []) ''https://example.com/a%2Fb.png''
     = Inr \<lparr>Scheme = ''https'', Host = ''example.com'', Path = ''/a/b.png''\<rparr>
   \<and> getFileName (fair_env [] []) ''https://example.com/a%2Fb.png'' = Returns ''b.png''
   \<and> getFileName (fair_env [] []) ''https://example.com/a%2Fb.png'' \<noteq> Returns ''a%2Fb.png''
   \<and> final_segment (written_path ''https://example.com/pic.jpg%2F'') = ''pic.jpg%2F''
   \<and> url_Parse (fair_env [] []) ''https://example.com/pic.jpg%2F''
     = Inr \<lparr>Scheme = ''https'', Host = ''example.com'', Path = ''/pic.jpg/''\<rparr>
   \<and> getFileName (fair_env [] []) ''https://example.com/pic.jpg%2F'' = Returns []"
  by (simp add: final_segment_def written_path_def getFileName_def parse_table_def Let_def
      fair_env_def)

text \<open>
  C4, amended. For every URL that \<^verbatim>\<open>url.Parse\<close> accepts and whose decoded
  path (the \<^verbatim>\<open>Path\<close> it returns, escapes resolved) has a non-empty final
  segment (the part after the last \<^verbatim>\<open>/\<close>, or the whole path when it has
  none), \<^verbatim>\<open>getFileName\<close> returns exactly that segment of the decoded path; it
  maps \<^verbatim>\<open>https://example.com/a/b/pic.jpg\<close> to \<^verbatim>\<open>pic.jpg\<close>.
\<close>

theorem getFileName_last_segment:
  assumes "url_Parse env fullUrlFile = Inr fileUrl"
    and "Path fileUrl = seg \<or> (\<exists>pre. Path fileUrl = pre @ ''/'' @ seg)"
    and "CHR ''/'' \<notin> set seg"
    and "seg \<noteq> []"
  shows "getFileName env fullUrlFile = Returns seg"
  using assms
  by (auto simp: getFileName_last strings_Split_last_append strings_Split_no_sep)

theorem getFileName_last_segment_witness:
  "url_Parse (fair_env [] []) ''https://example.com/a/b/pic.jpg''
     = Inr \<lparr>Scheme = ''https'', Host = ''example.com'', Path = ''/a/b/pic.jpg''\<rparr>
   \<and> getFileName (fair_env [] []) ''https://example.com/a/b/pic.jpg'' = Returns ''pic.jpg''"
proof -
  let ?u = "\<lparr>Scheme = ''https'', Host = ''example.com'', Path = ''/a/b/pic.jpg''\<rparr>"
  have p: "url_Parse (fair_env [] []) ''https://example.com/a/b/pic.jpg'' = Inr ?u"
    by (simp add: fair_env_def parse_table_def)
  have s: "Path ?u = ''pic.jpg'' \<or> (\<exists>pre. Path ?u = pre @ ''/'' @ ''pic.jpg'')"
    by (intro disjI2 exI [of _ "''/a/b''"]) simp
  from getFileName_last_segment [OF p s] p show ?thesis by simp
qed

text \<open>
  C9. For every URL that parses and whose path is empty or ends in \<^verbatim>\<open>/\<close>,
  the derived name is the empty string, so the staging file is \<^verbatim>\<open>.tmp\<close> in
  the destination directory: that is the path \<^verbatim>\<open>DownloadFile\<close> creates
  first.
\<close>

theorem getFileName_empty_name:
  assumes "url_Parse env fullUrlFile = Inr fileUrl"
    and "Path fileUrl = [] \<or> (\<exists>pre. Path fileUrl = pre @ ''/'')"
  shows "getFileName env fullUrlFile = Returns []
       \<and> staging_path dir [] = dir @ ''/.tmp''
       \<and> map fst (take 1 (trace_since w (snd (snd (DownloadFile env fullUrlFile dir w)))))
           = [Create (dir @ ''/.tmp'')]"
proof -
  have name: "getFileName env fullUrlFile = Returns []"
    using assms strings_Split_last_append [of _ "CHR ''/''" "[]"]
    by (auto simp: getFileName_last)
  have st: "staging_path dir [] = dir @ ''/.tmp''" by (simp add: staging_path_def)
  from DownloadFile_first_call [OF name, of dir w] obtain fs rest where
    "trace (snd (snd (DownloadFile env fullUrlFile dir w)))
       = trace w @ (Create (staging_path dir []), fs) # rest" by blast
  then have "trace_since w (snd (snd (DownloadFile env fullUrlFile dir w)))
       = (Create (staging_path dir []), fs) # rest" by (rule trace_since_append)
  with name st show ?thesis by simp
qed

theorem getFileName_empty_name_witness:
  "url_Parse (fair_env [] []) ''https://example.com/gallery/''
     = Inr \<lparr>Scheme = ''https'', Host = ''example.com'', Path = ''/gallery/''\<rparr>
   \<and> getFileName (fair_env [] []) ''https://example.com/gallery/'' = Returns []
   \<and> map fst (take 1 (trace_since empty_world
        (snd (snd (DownloadFile (fair_env [] []) ''https://example.com/gallery/'' ''/tmp/out''
           empty_world)))))
       = [Create ''/tmp/out/.tmp'']
   \<and> url_Parse (fair_env [] []) ''https://example.com''
     = Inr \<lparr>Scheme = ''https'', Host = ''example.com'', Path = []\<rparr>
   \<and> getFileName (fair_env [] []) ''https://example.com'' = Returns []"
proof -
  let ?u = "\<lparr>Scheme = ''https'', Host = ''example.com'', Path = ''/gallery/''\<rparr>"
  let ?v = "\<lparr>Scheme = ''https'', Host = ''example.com'', Path = []\<rparr>"
  have p: "url_Parse (fair_env [] []) ''https://example.com/gallery/'' = Inr ?u"
    by (simp add: fair_env_def parse_table_def)
  have s: "Path ?u = [] \<or> (\<exists>pre. Path ?u = pre @ ''/'')"
    by (intro disjI2 exI [of _ "''/gallery''"]) simp
  have q: "url_Parse (fair_env [] []) ''https://example.com'' = Inr ?v"
    by (simp add: fair_env_def parse_table_def)
  have t: "Path ?v = [] \<or> (\<exists>pre. Path ?v = pre @ ''/'')" by simp
  from getFileName_empty_name [OF p s, of "''/tmp/out''" empty_world]
    getFileName_empty_name [OF q t, of "''/tmp/out''" empty_world] p q
  show ?thesis by simp
qed

text \<open>
  C6, as stated: for an input that is not a valid URL, name derivation hands a parse
  error back to its caller as an error result. It does not: on
  \<^verbatim>\<open>http://example.com/%zz\<close>, which \<^verbatim>\<open>url.Parse\<close> rejects for
  its escape, \<^verbatim>\<open>getFileName\<close> does not return, it panics, and so does its
  caller \<^verbatim>\<open>DownloadFile\<close> instead of returning an error.
\<close>

theorem getFileName_parse_error_counterexample:
  "url_Parse (fair_env [] []) ''http://example.com/%zz'' = Inl (Error ''invalid URL escape'')
   \<and> getFileName (fair_env [] []) ''http://example.com/%zz''
     = Panics (Error ''invalid URL escape'')
   \<and> fst (DownloadFile (fair_env [] []) ''http://example.com/%zz'' ''/tmp/out'' empty_world)
     = Panics (Error ''invalid URL escape'')
   \<and> fst (DownloadFile (fair_env [] []) ''http://example.com/%zz'' ''/tmp/out'' empty_world)
     \<noteq> Returns (Some (Error ''invalid URL escape''))"
  by (simp add: fair_env_def parse_table_def getFileName_def DownloadFile_def)

text \<open>
  C6, amended. For every input that \<^verbatim>\<open>url.Parse\<close> rejects,
  \<^verbatim>\<open>getFileName\<close> panics with the parse error instead of completing with a
  name; the panic unwinds through \<^verbatim>\<open>DownloadFile\<close>, which has touched
  nothing, and through the callback, and it ends the process when the input is the first
  image of the page.
\<close>

theorem getFileName_parse_error_panics:
  assumes "url_Parse env fullUrlFile = Inl err"
  shows "getFileName env fullUrlFile = Panics err
       \<and> DownloadFile env fullUrlFile dir w = (Panics err, None, w)
       \<and> OnHTML_callback env dir fullUrlFile w
           = (Panics err, print (''image src:  '' @ fullUrlFile @ NL) w)
       \<and> (\<forall>Args rest. length Args = 3 \<longrightarrow> visit_result env (Args ! 1) = fullUrlFile # rest \<longrightarrow>
            fst (main env Args w) = PanicExit err)"
proof -
  have g: "getFileName env fullUrlFile = Panics err"
    using assms by (simp add: getFileName_def)
  then have d: "DownloadFile env fullUrlFile dir w = (Panics err, None, w)" for dir w
    by (simp add: DownloadFile_def)
  then have c: "OnHTML_callback env dir fullUrlFile w
           = (Panics err, print (''image src:  '' @ fullUrlFile @ NL) w)" for dir w
    by (simp add: OnHTML_callback_def)
  have "fst (main env Args w) = PanicExit err"
    if "length Args = 3" "visit_result env (Args ! 1) = fullUrlFile # rest" for Args rest
    using that by (simp add: main_three_args c)
  with g d c show ?thesis by blast
qed

theorem getFileName_parse_error_panics_witness:
  "url_Parse (fair_env [] [''http://example.com/%zz'']) ''http://example.com/%zz''
     = Inl (Error ''invalid URL escape'')
   \<and> getFileName (fair_env [] [''http://example.com/%zz'']) ''http://example.com/%zz''
     = Panics (Error ''invalid URL escape'')
   \<and> fst (main (fair_env [] [''http://example.com/%zz''])
        [''download'', ''http://example.com/'', ''/tmp/out''] empty_world)
     = PanicExit (Error ''invalid URL escape'')"
proof -
  have p: "url_Parse (fair_env [] [''http://example.com/%zz'']) ''http://example.com/%zz''
     = Inl (Error ''invalid URL escape'')"
    by (simp add: fair_env_def parse_table_def)
  have v: "visit_result (fair_env [] [''http://example.com/%zz''])
      ([''download'', ''http://example.com/'', ''/tmp/out''] ! 1) = ''http://example.com/%zz'' # []"
    by (simp add: fair_env_def)
  from getFileName_parse_error_panics [OF p, of "''/tmp/out''" empty_world] p v
  show ?thesis by simp
qed

text \<open>
  C2, as stated: after a successful Transfer the counter's total equals the exact byte
  length of the response body. For a body of \<open>2 ^ 64\<close> bytes the Transfer succeeds
  and the total is \<open>0\<close>.
\<close>

theorem DownloadFile_Total_counterexample:
  "fst (DownloadFile (fair_env (stream (2 ^ 49)) []) ''https://x.test/img/42.png'' ''/tmp/out''
         empty_world) = Returns None
   \<and> map_option Total (fst (snd (DownloadFile (fair_env (stream (2 ^ 49)) [])
         ''https://x.test/img/42.png'' ''/tmp/out'' empty_world))) = Some 0
   \<and> length (body_bytes (stream (2 ^ 49))) = 2 ^ 64"
proof -
  let ?X = "DownloadFile (fair_env (stream (2 ^ 49)) []) ''https://x.test/img/42.png''
     ''/tmp/out'' empty_world"
  have name: "getFileName (fair_env (stream (2 ^ 49)) []) ''https://x.test/img/42.png''
      = Returns ''42.png''"
    by (simp add: getFileName_def fair_env_def parse_table_def)
  from DownloadFile_fair [OF name body_error_stream] have ok: "fst ?X = Returns None" .
  then have "?X = (Returns None, fst (snd ?X), snd (snd ?X))"
    by (metis prod.collapse)
  from DownloadFile_success_Total [OF this] obtain counter where
    "fst (snd ?X) = Some counter" "Total counter = of_nat (length (body_bytes (stream (2 ^ 49))))"
    by (auto simp: fair_env_def)
  then have "map_option Total (fst (snd ?X)) = Some 0"
    by (simp add: length_body_bytes_stream)
  with ok show ?thesis by (simp add: length_body_bytes_stream)
qed

text \<open>
  C2, amended. When \<^verbatim>\<open>DownloadFile\<close> returns without error, the body was read
  to its end and the counter's total equals the byte length of the body modulo
  \<open>2 ^ 64\<close>: the exact byte length for every body shorter than \<open>2 ^ 64\<close> bytes.
\<close>

theorem DownloadFile_Total_is_body_length:
  assumes "DownloadFile env url dir w = (Returns None, c, w')"
  shows "\<exists>rs counter. get_result env url = Inr rs \<and> c = Some counter \<and> body_error rs = None
           \<and> unat (Total counter) = length (body_bytes rs) mod 2 ^ 64
           \<and> (length (body_bytes rs) < 2 ^ 64 \<longrightarrow> unat (Total counter) = length (body_bytes rs))"
proof -
  from DownloadFile_success_Total [OF assms] obtain rs counter where
    *: "get_result env url = Inr rs" "c = Some counter" "body_error rs = None"
       "Total counter = of_nat (length (body_bytes rs))" by blast
  have "unat (Total counter) = length (body_bytes rs) mod 2 ^ 64"
    using *(4) by (simp add: unat_of_nat)
  with * show ?thesis by auto
qed

theorem DownloadFile_Total_is_body_length_witness:
  "fst (DownloadFile (fair_env [([1, 2, 3], None), ([4, 5], Some EOF)] [])
         ''https://x.test/img/42.png'' ''/tmp/out'' empty_world) = Returns None
   \<and> map_option (\<lambda>counter. unat (Total counter))
        (fst (snd (DownloadFile (fair_env [([1, 2, 3], None), ([4, 5], Some EOF)] [])
         ''https://x.test/img/42.png'' ''/tmp/out'' empty_world))) = Some 5
   \<and> length (body_bytes [([1, 2, 3], None), ([4, 5], Some EOF)]) = 5"
proof -
  let ?E = "fair_env [([1, 2, 3], None), ([4, 5], Some EOF)] []"
  let ?X = "DownloadFile ?E ''https://x.test/img/42.png'' ''/tmp/out'' empty_world"
  have name: "getFileName ?E ''https://x.test/img/42.png'' = Returns ''42.png''"
    by (simp add: getFileName_def fair_env_def parse_table_def)
  have ok: "fst ?X = Returns None" by (rule DownloadFile_fair [OF name]) simp
  then have "?X = (Returns None, fst (snd ?X), snd (snd ?X))"
    by (metis prod.collapse)
  from DownloadFile_Total_is_body_length [OF this] ok show ?thesis
    by (auto simp: fair_env_def)
qed

text \<open>
  C7, as stated: over every sequence of chunk writes of a Transfer the counter never
  decreases. \<^verbatim>\<open>Total\<close> is a \<^verbatim>\<open>uint64\<close> and the addition wraps: in
  the Transfer of a body of \<open>2 ^ 49\<close> chunks of 32 KiB, the counter after the last
  chunk is smaller than after the chunks before it; the last
  \<^verbatim>\<open>Write\<close> takes it from \<open>2 ^ 64 - 32768\<close> to \<open>0\<close>.
\<close>

theorem WriteCounter_Total_wraps_counterexample:
  "Total (fst (snd (io_Copy (fair_env [] []) ''/tmp/out/42.png.tmp''
       (stream (2 ^ 49 - 1) @ [(chunk32k, None)]) \<lparr>Total = 0\<rparr>
       (copy_start ''/tmp/out/42.png.tmp''))))
   < Total (fst (snd (io_Copy (fair_env [] []) ''/tmp/out/42.png.tmp''
       (stream (2 ^ 49 - 1)) \<lparr>Total = 0\<rparr> (copy_start ''/tmp/out/42.png.tmp''))))
   \<and> Total (fst (snd (io_Copy (fair_env [] []) ''/tmp/out/42.png.tmp''
       (stream (2 ^ 49 - 1)) \<lparr>Total = 0\<rparr> (copy_start ''/tmp/out/42.png.tmp''))))
     = 2 ^ 64 - 32768
   \<and> Total (fst (snd (Write (fair_env [] []) \<lparr>Total = 2 ^ 64 - 32768\<rparr> chunk32k empty_world)))
   < Total \<lparr>Total = 2 ^ 64 - 32768\<rparr>"
proof -
  have "stream (2 ^ 49 - 1) @ [(chunk32k, None)] = stream (2 ^ 49)"
    by (simp add: stream_Suc)
  then show ?thesis
    by (simp add: io_Copy_stream_Total Write_def Let_def chunk32k_def)
qed

text \<open>
  C7, amended. As long as the bytes counted so far and the bytes of the body stay below
  \<open>2 ^ 64\<close>, the counter never decreases along the copy: after any first part of the
  reads it is at most what it is after more of them, and each
  \<^verbatim>\<open>Write(p)\<close> that does not reach \<open>2 ^ 64\<close> adds exactly
  \<^verbatim>\<open>len(p)\<close>.
\<close>

theorem WriteCounter_Total_monotone:
  assumes "unat (Total wc) + length (body_bytes (rs1 @ rs2)) < 2 ^ 64"
  shows "Total (fst (snd (io_Copy env dst rs1 wc w)))
           \<le> Total (fst (snd (io_Copy env dst (rs1 @ rs2) wc w)))
       \<and> (\<forall>p w'. unat (Total wc) + length p < 2 ^ 64 \<longrightarrow>
             Total wc \<le> Total (fst (snd (Write env wc p w')))
           \<and> unat (Total (fst (snd (Write env wc p w')))) = unat (Total wc) + length p)"
proof -
  have "unat (Total (fst (snd (Write env wc p w')))) = unat (Total wc) + length p"
    if "unat (Total wc) + length p < 2 ^ 64" for p w'
    using that by (simp add: Write_def Let_def Total_add_unat)
  then show ?thesis
    using io_Copy_Total_prefix [OF assms, of env dst w] by (simp add: word_le_nat_alt)
qed

theorem WriteCounter_Total_monotone_witness:
  "unat (Total \<lparr>Total = 0\<rparr>) + length (body_bytes ([([1, 2, 3], None)] @ [([4, 5], Some EOF)]))
     < 2 ^ 64
   \<and> Total (fst (snd (io_Copy (fair_env [] []) ''/tmp/out/42.png.tmp'' [([1, 2, 3], None)]
        \<lparr>Total = 0\<rparr> empty_world)))
     \<le> Total (fst (snd (io_Copy (fair_env [] []) ''/tmp/out/42.png.tmp''
        ([([1, 2, 3], None)] @ [([4, 5], Some EOF)]) \<lparr>Total = 0\<rparr> empty_world)))
   \<and> Total \<lparr>Total = 0\<rparr> \<le> Total (fst (snd (Write (fair_env [] []) \<lparr>Total = 0\<rparr> [7, 7] empty_world)))"
proof -
  have h: "unat (Total \<lparr>Total = 0\<rparr>)
      + length (body_bytes ([([1, 2, 3], None)] @ [([4, 5], Some EOF)])) < 2 ^ 64"
    by simp
  from WriteCounter_Total_monotone [OF h, of "fair_env [] []" "''/tmp/out/42.png.tmp''" empty_world]
  show ?thesis using h by simp
qed

text \<open>
  C5, as stated: on every exit path of \<^verbatim>\<open>DownloadFile\<close> the staging file is
  removed or renamed away, so none remains after it returns. When the request is refused,
  \<^verbatim>\<open>DownloadFile\<close> returns the error and the staging file it created stays
  where it is, empty.
\<close>

theorem DownloadFile_staging_remains_counterexample:
  "fst (DownloadFile refused_env ''https://x.test/img/42.png'' ''/tmp/out'' empty_world)
     = Returns (Some (Error ''connection refused''))
   \<and> files (snd (snd (DownloadFile refused_env ''https://x.test/img/42.png'' ''/tmp/out''
         empty_world))) ''/tmp/out/42.png.tmp''
     = Some []"
  by (simp add: DownloadFile_def getFileName_def refused_env_def fair_env_def parse_table_def
      Let_def os_Create_def http_Get_def staging_path_def empty_world_def)

text \<open>
  C5, amended. When \<^verbatim>\<open>DownloadFile\<close> returns without error the staging file
  has been renamed away: no file is left at the staging path, and the final path holds
  the body. When it returns an error after the staging file was created, nothing removes
  the staging file: it is left on disk with the bytes written to it.
\<close>

theorem DownloadFile_staging_file_fate:
  assumes "getFileName env url = Returns name"
    and "DownloadFile env url dir w = (res, c, w')"
  shows "(res = Returns None \<longrightarrow>
            files w' (staging_path dir name) = None
          \<and> (\<exists>rs. get_result env url = Inr rs
                \<and> files w' (final_path dir name) = Some (body_bytes rs)))
       \<and> (res \<noteq> Returns None \<longrightarrow>
            create_result env (staging_path dir name) (files w) = None \<longrightarrow>
            files w' (staging_path dir name)
              = Some (bytes_written (staging_path dir name) (trace_since w w')))"
  using DownloadFile_success_files [OF assms(1)] DownloadFile_failure_staging [OF assms] assms(2)
  by blast

theorem DownloadFile_staging_file_fate_witness:
  "getFileName (fair_env [([1, 2, 3], None), ([4, 5], Some EOF)] []) ''https://x.test/img/42.png''
     = Returns ''42.png''
   \<and> fst (DownloadFile (fair_env [([1, 2, 3], None), ([4, 5], Some EOF)] [])
         ''https://x.test/img/42.png'' ''/tmp/out'' empty_world) = Returns None
   \<and> files (snd (snd (DownloadFile (fair_env [([1, 2, 3], None), ([4, 5], Some EOF)] [])
         ''https://x.test/img/42.png'' ''/tmp/out'' empty_world)))
       (staging_path ''/tmp/out'' ''42.png'') = None
   \<and> files (snd (snd (DownloadFile (fair_env [([1, 2, 3], None), ([4, 5], Some EOF)] [])
         ''https://x.test/img/42.png'' ''/tmp/out'' empty_world)))
       (final_path ''/tmp/out'' ''42.png'') = Some [1, 2, 3, 4, 5]"
proof -
  let ?E = "fair_env [([1, 2, 3], None), ([4, 5], Some EOF)] []"
  let ?X = "DownloadFile ?E ''https://x.test/img/42.png'' ''/tmp/out'' empty_world"
  have name: "getFileName ?E ''https://x.test/img/42.png'' = Returns ''42.png''"
    by (simp add: getFileName_def fair_env_def parse_table_def)
  have ok: "fst ?X = Returns None" by (rule DownloadFile_fair [OF name]) simp
  have run: "?X = (fst ?X, fst (snd ?X), snd (snd ?X))" by simp
  from DownloadFile_staging_file_fate [OF name run] ok name show ?thesis
    by (auto simp: fair_env_def)
qed

text \<open>
  C1. Through a Transfer the file under the final name is the one that was there before,
  unchanged (or absent), or it is the complete body. \<^verbatim>\<open>DownloadFile\<close> writes
  only to the staging file \<^verbatim>\<open>dir/name.tmp\<close> and touches no path but the
  staging and the final one; the final name changes in one call only, the single rename,
  which is the last call of a Transfer that returns without error, after the body was
  read to its end, and which leaves the whole body under the final name. The scenario
  \<^verbatim>\<open>https://x.test/img/42.png\<close> into \<^verbatim>\<open>/tmp/out\<close> is the witness.
\<close>

theorem DownloadFile_final_name_invariant:
  assumes "getFileName env url = Returns name"
    and "DownloadFile env url dir w = (res, c, w')"
  shows "list_all (\<lambda>(cl, fs).
            (\<forall>p. p \<noteq> staging_path dir name \<and> p \<noteq> final_path dir name \<longrightarrow> fs p = files w p)
          \<and> (\<forall>q b. cl = FileWrite q b \<longrightarrow> q = staging_path dir name)
          \<and> (fs (final_path dir name) = files w (final_path dir name)
             \<or> cl = Rename (staging_path dir name) (final_path dir name)
               \<and> res = Returns None \<and> fs = files w'
               \<and> (\<exists>rs. get_result env url = Inr rs \<and> body_error rs = None
                     \<and> fs (final_path dir name) = Some (body_bytes rs))))
          (trace_since w w')
       \<and> trace_since w w' \<noteq> [] \<and> files w' = snd (last (trace_since w w'))
       \<and> length (filter (\<lambda>(cl, fs). \<exists>a b. cl = Rename a b) (trace_since w w')) \<le> 1"
proof -
  let ?tmp = "staging_path dir name" and ?fin = "final_path dir name"
  let ?P = "\<lambda>(cl, fs).
            (\<forall>p. p \<noteq> ?tmp \<and> p \<noteq> ?fin \<longrightarrow> fs p = files w p)
          \<and> (\<forall>q b. cl = FileWrite q b \<longrightarrow> q = ?tmp)
          \<and> (fs ?fin = files w ?fin
             \<or> cl = Rename ?tmp ?fin \<and> res = Returns None \<and> fs = files w'
               \<and> (\<exists>rs. get_result env url = Inr rs \<and> body_error rs = None
                     \<and> fs ?fin = Some (body_bytes rs)))"
  let ?R = "\<lambda>(cl, fs). \<exists>a b. cl = Rename a b"
  have ne: "?fin \<noteq> ?tmp" using staging_not_final [of dir name] by simp
  have calls_ok: "list_all ?P calls \<and> filter ?R calls = []"
    if "\<forall>(cl, fs) \<in> set calls.
         (cl = Create ?tmp \<or> cl = Get url \<or> (\<exists>b. cl = FileWrite ?tmp b))
         \<and> (\<forall>p. p \<noteq> ?tmp \<longrightarrow> fs p = files w p)" for calls
    using that ne by (auto simp: list_all_iff filter_empty_conv)
  from assms show ?thesis
  proof (cases rule: DownloadFile_trace)
    case (no_rename calls)
    from no_rename(1) have ts: "trace_since w w' = calls" by (rule trace_since_append)
    from calls_ok [OF no_rename(3)] no_rename(4,5) show ?thesis
      unfolding ts by simp
  next
    case (rename calls rs)
    from rename(1) have ts: "trace_since w w' = calls @ [(Rename ?tmp ?fin, files w')]"
      by (rule trace_since_append)
    have "?P (Rename ?tmp ?fin, files w')"
      using rename(3-7) by (cases "res = Returns None") auto
    with calls_ok [OF rename(2)] show ?thesis
      unfolding ts by simp
  qed
qed

theorem DownloadFile_final_name_invariant_witness:
  "getFileName (fair_env [([1, 2, 3], None), ([4, 5], Some EOF)] []) ''https://x.test/img/42.png''
     = Returns ''42.png''
   \<and> map fst (trace_since empty_world
        (snd (snd (DownloadFile (fair_env [([1, 2, 3], None), ([4, 5], Some EOF)] [])
           ''https://x.test/img/42.png'' ''/tmp/out'' empty_world))))
     = [Create ''/tmp/out/42.png.tmp'', Get ''https://x.test/img/42.png'',
        FileWrite ''/tmp/out/42.png.tmp'' [1, 2, 3], FileWrite ''/tmp/out/42.png.tmp'' [4, 5],
        Rename ''/tmp/out/42.png.tmp'' ''/tmp/out/42.png'']
   \<and> map (\<lambda>(cl, fs). fs ''/tmp/out/42.png'') (trace_since empty_world
        (snd (snd (DownloadFile (fair_env [([1, 2, 3], None), ([4, 5], Some EOF)] [])
           ''https://x.test/img/42.png'' ''/tmp/out'' empty_world))))
     = [None, None, None, None, Some [1, 2, 3, 4, 5]]
   \<and> list_all (\<lambda>(cl, fs).
          fs (final_path ''/tmp/out'' ''42.png'') = files empty_world (final_path ''/tmp/out'' ''42.png'')
        \<or> cl = Rename (staging_path ''/tmp/out'' ''42.png'') (final_path ''/tmp/out'' ''42.png''))
      (trace_since empty_world
        (snd (snd (DownloadFile (fair_env [([1, 2, 3], None), ([4, 5], Some EOF)] [])
           ''https://x.test/img/42.png'' ''/tmp/out'' empty_world))))"
proof -
  let ?E = "fair_env [([1, 2, 3], None), ([4, 5], Some EOF)] []"
  let ?X = "DownloadFile ?E ''https://x.test/img/42.png'' ''/tmp/out'' empty_world"
  have name: "getFileName ?E ''https://x.test/img/42.png'' = Returns ''42.png''"
    by (simp add: getFileName_def fair_env_def parse_table_def)
  have run: "?X = (fst ?X, fst (snd ?X), snd (snd ?X))" by simp
  have ev: "map (\<lambda>(cl, fs). (cl, fs ''/tmp/out/42.png'')) (trace_since empty_world (snd (snd ?X)))
     = [(Create ''/tmp/out/42.png.tmp'', None), (Get ''https://x.test/img/42.png'', None),
        (FileWrite ''/tmp/out/42.png.tmp'' [1, 2, 3], None),
        (FileWrite ''/tmp/out/42.png.tmp'' [4, 5], None),
        (Rename ''/tmp/out/42.png.tmp'' ''/tmp/out/42.png'', Some [1, 2, 3, 4, 5])]"
    by (simp add: DownloadFile_def name os_Create_def http_Get_def os_Rename_def
        io_Copy_Cons_nonempty file_Write_def Let_def staging_path_def
        final_path_def empty_world_def trace_since_def)
  have "list_all (\<lambda>(cl, fs).
          fs (final_path ''/tmp/out'' ''42.png'') = files empty_world (final_path ''/tmp/out'' ''42.png'')
        \<or> cl = Rename (staging_path ''/tmp/out'' ''42.png'') (final_path ''/tmp/out'' ''42.png''))
      (trace_since empty_world (snd (snd ?X)))"
    using DownloadFile_final_name_invariant [OF name run]
    by (auto simp: list_all_iff)
  moreover from ev have
    "map fst (map (\<lambda>(cl, fs). (cl, fs ''/tmp/out/42.png'')) (trace_since empty_world (snd (snd ?X))))
      = [Create ''/tmp/out/42.png.tmp'', Get ''https://x.test/img/42.png'',
        FileWrite ''/tmp/out/42.png.tmp'' [1, 2, 3], FileWrite ''/tmp/out/42.png.tmp'' [4, 5],
        Rename ''/tmp/out/42.png.tmp'' ''/tmp/out/42.png'']"
    "map snd (map (\<lambda>(cl, fs). (cl, fs ''/tmp/out/42.png'')) (trace_since empty_world (snd (snd ?X))))
      = [None, None, None, None, Some [1, 2, 3, 4, 5]]"
    by simp_all
  ultimately show ?thesis using name by (simp add: case_prod_unfold comp_def)
qed

text \<open>
  C3. Every failure of a Transfer makes \<^verbatim>\<open>DownloadFile\<close> return the error:
  of \<^verbatim>\<open>os.Create\<close> (the file system is then as it was), of
  \<^verbatim>\<open>http.Get\<close> (the staging file is empty), of the stream (when the writes
  succeed the staging file holds the bytes received up to the error), of a write (the
  staging file holds the chunks before it and the bytes the failed write stored), of
  \<^verbatim>\<open>os.Rename\<close> (the staging file holds the body). Whenever
  \<^verbatim>\<open>DownloadFile\<close> does not return \<^verbatim>\<open>nil\<close> it returns an error, the
  final name is as it was before after every call, and a staging file that was created
  holds exactly the bytes that the write calls stored. A configuration error is the exit
  status 1, which \<^verbatim>\<open>main\<close> gives for a wrong argument count and for nothing
  else; a failed Transfer ends \<^verbatim>\<open>main\<close> with the panic that carries the
  error. The witness runs one failure of each kind: the stream fails after 1024 bytes,
  the directory is missing, the request is refused, the disk is full, the rename is
  denied.
\<close>

theorem DownloadFile_failures:
  assumes "getFileName env url = Returns name"
    and "DownloadFile env url dir w = (res, c, w')"
  shows "(\<forall>e. create_result env (staging_path dir name) (files w) = Some e \<longrightarrow>
            res = Returns (Some e) \<and> files w' = files w)
       \<and> (create_result env (staging_path dir name) (files w) = None \<longrightarrow>
            (\<forall>e. get_result env url = Inl e \<longrightarrow>
               res = Returns (Some e) \<and> files w' (staging_path dir name) = Some [])
          \<and> (\<forall>rs e. get_result env url = Inr rs
                \<and> (\<forall>old b. write_result env (staging_path dir name) old b = None)
                \<and> body_error rs = Some e \<longrightarrow>
               res = Returns (Some e) \<and> files w' (staging_path dir name) = Some (body_bytes rs))
          \<and> (\<forall>pre p er rest counter w3 n e.
                get_result env url = Inr (pre @ (p, er) # rest)
                \<and> list_all (\<lambda>(q, er). er = None) pre
                \<and> io_Copy env (staging_path dir name) pre \<lparr>Total = 0\<rparr>
                     (called (Get url) (sys (Create (staging_path dir name))
                        ((files w)(staging_path dir name \<mapsto> [])) w)) = (None, counter, w3)
                \<and> p \<noteq> []
                \<and> write_result env (staging_path dir name) (body_bytes pre) p = Some (n, e) \<longrightarrow>
               res = Returns (Some e)
               \<and> files w' (staging_path dir name) = Some (body_bytes pre @ take n p))
          \<and> (\<forall>rs counter w3 e.
                get_result env url = Inr rs
                \<and> io_Copy env (staging_path dir name) rs \<lparr>Total = 0\<rparr>
                     (called (Get url) (sys (Create (staging_path dir name))
                        ((files w)(staging_path dir name \<mapsto> [])) w)) = (None, counter, w3)
                \<and> rename_result env (staging_path dir name) (final_path dir name) (files w3)
                     = Some e \<longrightarrow>
               res = Returns (Some e) \<and> files w' (staging_path dir name) = Some (body_bytes rs)))
       \<and> (res \<noteq> Returns None \<longrightarrow>
            (\<exists>e. res = Returns (Some e))
          \<and> files w' (final_path dir name) = files w (final_path dir name)
          \<and> list_all (\<lambda>(cl, fs). fs (final_path dir name) = files w (final_path dir name))
               (trace_since w w')
          \<and> (create_result env (staging_path dir name) (files w) = None \<longrightarrow>
               files w' (staging_path dir name)
                 = Some (bytes_written (staging_path dir name) (trace_since w w'))))
       \<and> (\<forall>Args w0. (fst (main env Args w0) = ExitCode 1) = (length Args \<noteq> 3))
       \<and> (\<forall>Args w0 pre rest w1.
            res \<noteq> Returns None \<and> length Args = 3 \<and> Args ! 2 = dir
            \<and> visit_result env (Args ! 1) = pre @ url # rest
            \<and> run_callbacks env dir pre (crawl_start env Args w0) = (Returns (), w1)
            \<and> w = print (''image src:  '' @ url @ NL) w1 \<longrightarrow>
            (\<exists>e. res = Returns (Some e) \<and> main env Args w0 = (PanicExit e, w')))"
proof -
  let ?tmp = "staging_path dir name" and ?fin = "final_path dir name"
  let ?w2 = "called (Get url) (sys (Create ?tmp) ((files w)(?tmp \<mapsto> [])) w)"
  have create: "res = Returns (Some e) \<and> files w' = files w"
    if "create_result env ?tmp (files w) = Some e" for e
    using assms by (cases rule: DownloadFile_cases) (use that in simp_all)
  have request: "res = Returns (Some e) \<and> files w' ?tmp = Some []"
    if "create_result env ?tmp (files w) = None" "get_result env url = Inl e" for e
    using assms by (cases rule: DownloadFile_cases) (use that in simp_all)
  have copy: "res = Returns (Some e) \<and> files w' = files w3"
    if "create_result env ?tmp (files w) = None" "get_result env url = Inr rs"
      "io_Copy env ?tmp rs \<lparr>Total = 0\<rparr> ?w2 = (Some e, counter, w3)" for rs e counter w3
    using assms by (cases rule: DownloadFile_cases) (use that in simp_all)
  have stream: "res = Returns (Some e) \<and> files w' ?tmp = Some (body_bytes rs)"
    if "create_result env ?tmp (files w) = None" "get_result env url = Inr rs"
      "\<forall>old b. write_result env ?tmp old b = None" "body_error rs = Some e" for rs e
  proof -
    obtain r counter w3 where cp: "io_Copy env ?tmp rs \<lparr>Total = 0\<rparr> ?w2 = (r, counter, w3)"
      by (cases "io_Copy env ?tmp rs \<lparr>Total = 0\<rparr> ?w2")
    from io_Copy_writes_succeed [OF cp files_copy_start that(3)] that(4)
    have "r = Some e" "files w3 ?tmp = Some (body_bytes rs)" by simp_all
    with copy [OF that(1,2)] cp show ?thesis by simp
  qed
  have "write": "res = Returns (Some e) \<and> files w' ?tmp = Some (body_bytes pre @ take n p)"
    if "create_result env ?tmp (files w) = None" "get_result env url = Inr (pre @ (p, er) # rest)"
      "list_all (\<lambda>(q, er). er = None) pre"
      "io_Copy env ?tmp pre \<lparr>Total = 0\<rparr> ?w2 = (None, counter, w3)"
      "p \<noteq> []" "write_result env ?tmp (body_bytes pre) p = Some (n, e)"
    for pre p er rest counter w3 n e
  proof -
    let ?X = "io_Copy env ?tmp (pre @ (p, er) # rest) \<lparr>Total = 0\<rparr> ?w2"
    from io_Copy_complete [OF that(4) files_copy_start]
    have f3: "files w3 ?tmp = Some (body_bytes pre)" by simp
    from io_Copy_append [OF that(3,4)]
    have "?X = io_Copy env ?tmp ((p, er) # rest) counter w3" .
    with io_Copy_write_fails [OF that(5) f3 that(6), of er rest counter]
    have "fst ?X = Some e" "files (snd (snd ?X)) ?tmp = Some (body_bytes pre @ take n p)"
      by simp_all
    then have "?X = (Some e, fst (snd ?X), snd (snd ?X))" by (metis prod.collapse)
    from copy [OF that(1,2) this] \<open>files (snd (snd ?X)) ?tmp = Some (body_bytes pre @ take n p)\<close>
    show ?thesis by simp
  qed
  have rename: "res = Returns (Some e) \<and> files w' ?tmp = Some (body_bytes rs)"
    if "create_result env ?tmp (files w) = None" "get_result env url = Inr rs"
      "io_Copy env ?tmp rs \<lparr>Total = 0\<rparr> ?w2 = (None, counter, w3)"
      "rename_result env ?tmp ?fin (files w3) = Some e" for rs counter w3 e
  proof -
    from io_Copy_complete [OF that(3) files_copy_start]
    have f3: "files w3 ?tmp = Some (body_bytes rs)" by simp
    from assms show ?thesis
      by (cases rule: DownloadFile_cases) (use that f3 in simp_all)
  qed
  have general: "(\<exists>e. res = Returns (Some e)) \<and> files w' ?fin = files w ?fin
      \<and> list_all (\<lambda>(cl, fs). fs ?fin = files w ?fin) (trace_since w w')
      \<and> (create_result env ?tmp (files w) = None \<longrightarrow>
            files w' ?tmp = Some (bytes_written ?tmp (trace_since w w')))"
    if "res \<noteq> Returns None"
  proof -
    have "files w' ?fin = files w ?fin"
    proof (cases "create_result env ?tmp (files w)")
      case None
      from DownloadFile_failure_staging [OF assms that None] show ?thesis by simp
    next
      case (Some e)
      from create [OF this] show ?thesis by simp
    qed
    with DownloadFile_failure_final [OF assms that] DownloadFile_failure_staging [OF assms that]
    show ?thesis by simp
  qed
  have panic: "\<exists>e. res = Returns (Some e) \<and> main env Args w0 = (PanicExit e, w')"
    if "res \<noteq> Returns None" "length Args = 3" "Args ! 2 = dir"
      "visit_result env (Args ! 1) = pre @ url # rest"
      "run_callbacks env dir pre (crawl_start env Args w0) = (Returns (), w1)"
      "w = print (''image src:  '' @ url @ NL) w1" for Args w0 pre rest w1
  proof -
    from general [OF that(1)] obtain e where e: "res = Returns (Some e)" by blast
    have rc: "run_callbacks env (Args ! 2) pre (crawl_start env Args w0) = (Returns (), w1)"
      using that(3,5) by simp
    have df: "DownloadFile env url (Args ! 2) (print (''image src:  '' @ url @ NL) w1)
        = (Returns (Some e), c, w')"
      using assms(2) e that(3,6) by simp
    from main_panics [OF that(2,4) rc df] e show ?thesis by simp
  qed
  show ?thesis
  proof (intro conjI allI impI; (elim conjE)?)
    fix e assume "create_result env ?tmp (files w) = Some e"
    from create [OF this] show "res = Returns (Some e)" "files w' = files w" by simp_all
  next
    fix e assume "create_result env ?tmp (files w) = None" "get_result env url = Inl e"
    from request [OF this] show "res = Returns (Some e)" "files w' ?tmp = Some []" by simp_all
  next
    fix rs e assume "create_result env ?tmp (files w) = None" "get_result env url = Inr rs"
      "\<forall>old b. write_result env ?tmp old b = None" "body_error rs = Some e"
    from stream [OF this] show "res = Returns (Some e)" "files w' ?tmp = Some (body_bytes rs)"
      by simp_all
  next
    fix pre p er rest counter w3 n e
    assume "create_result env ?tmp (files w) = None"
      "get_result env url = Inr (pre @ (p, er) # rest)"
      "list_all (\<lambda>(q, er). er = None) pre"
      "io_Copy env ?tmp pre \<lparr>Total = 0\<rparr> ?w2 = (None, counter, w3)"
      "p \<noteq> []" "write_result env ?tmp (body_bytes pre) p = Some (n, e)"
    from "write" [OF this] show "res = Returns (Some e)"
      "files w' ?tmp = Some (body_bytes pre @ take n p)" by simp_all
  next
    fix rs counter w3 e
    assume "create_result env ?tmp (files w) = None" "get_result env url = Inr rs"
      "io_Copy env ?tmp rs \<lparr>Total = 0\<rparr> ?w2 = (None, counter, w3)"
      "rename_result env ?tmp ?fin (files w3) = Some e"
    from rename [OF this] show "res = Returns (Some e)" "files w' ?tmp = Some (body_bytes rs)"
      by simp_all
  next
    assume "res \<noteq> Returns None"
    from general [OF this] show "\<exists>e. res = Returns (Some e)" "files w' ?fin = files w ?fin"
      "list_all (\<lambda>(cl, fs). fs ?fin = files w ?fin) (trace_since w w')" by simp_all
  next
    assume "res \<noteq> Returns None" "create_result env ?tmp (files w) = None"
    with general show "files w' ?tmp = Some (bytes_written ?tmp (trace_since w w'))" by simp
  next
    fix Args w0 show "(fst (main env Args w0) = ExitCode 1) = (length Args \<noteq> 3)"
      by (rule main_exit_status)
  next
    fix Args w0 pre rest w1
    assume "res \<noteq> Returns None" "length Args = 3" "Args ! 2 = dir"
      "visit_result env (Args ! 1) = pre @ url # rest"
      "run_callbacks env dir pre (crawl_start env Args w0) = (Returns (), w1)"
      "w = print (''image src:  '' @ url @ NL) w1"
    from panic [OF this] show "\<exists>e. res = Returns (Some e) \<and> main env Args w0 = (PanicExit e, w')" .
  qed
qed


theorem DownloadFile_failures_witness:
  "getFileName
     (fair_env [(replicate 1024 0, None), ([], Some (Error ''connection reset by peer''))]
        [''https://x.test/img/42.png''])
     ''https://x.test/img/42.png'' = Returns ''42.png''
   \<and> fst (DownloadFile
        (fair_env [(replicate 1024 0, None), ([], Some (Error ''connection reset by peer''))]
           [''https://x.test/img/42.png''])
        ''https://x.test/img/42.png'' ''/tmp/out''
        (print (''image src:  '' @ ''https://x.test/img/42.png'' @ NL)
           (crawl_start
              (fair_env [(replicate 1024 0, None), ([], Some (Error ''connection reset by peer''))]
                 [''https://x.test/img/42.png''])
              [''download'', ''https://x.test/'', ''/tmp/out''] empty_world)))
     = Returns (Some (Error ''connection reset by peer''))
   \<and> files (snd (snd (DownloadFile
        (fair_env [(replicate 1024 0, None), ([], Some (Error ''connection reset by peer''))]
           [''https://x.test/img/42.png''])
        ''https://x.test/img/42.png'' ''/tmp/out''
        (print (''image src:  '' @ ''https://x.test/img/42.png'' @ NL)
           (crawl_start
              (fair_env [(replicate 1024 0, None), ([], Some (Error ''connection reset by peer''))]
                 [''https://x.test/img/42.png''])
              [''download'', ''https://x.test/'', ''/tmp/out''] empty_world)))))
       (staging_path ''/tmp/out'' ''42.png'') = Some (replicate 1024 0)
   \<and> files (snd (snd (DownloadFile
        (fair_env [(replicate 1024 0, None), ([], Some (Error ''connection reset by peer''))]
           [''https://x.test/img/42.png''])
        ''https://x.test/img/42.png'' ''/tmp/out''
        (print (''image src:  '' @ ''https://x.test/img/42.png'' @ NL)
           (crawl_start
              (fair_env [(replicate 1024 0, None), ([], Some (Error ''connection reset by peer''))]
                 [''https://x.test/img/42.png''])
              [''download'', ''https://x.test/'', ''/tmp/out''] empty_world)))))
       (final_path ''/tmp/out'' ''42.png'') = None
   \<and> fst (main
        (fair_env [(replicate 1024 0, None), ([], Some (Error ''connection reset by peer''))]
           [''https://x.test/img/42.png''])
        [''download'', ''https://x.test/'', ''/tmp/out''] empty_world)
     = PanicExit (Error ''connection reset by peer'')
   \<and> fst (main
        (fair_env [(replicate 1024 0, None), ([], Some (Error ''connection reset by peer''))]
           [''https://x.test/img/42.png''])
        [''download'', ''https://x.test/''] empty_world)
     = ExitCode 1
   \<and> fst (DownloadFile missing_dir_env ''https://x.test/img/42.png'' ''/tmp/out'' empty_world)
     = Returns (Some (Error ''no such file or directory''))
   \<and> files (snd (snd (DownloadFile missing_dir_env ''https://x.test/img/42.png'' ''/tmp/out''
        empty_world))) = files empty_world
   \<and> fst (DownloadFile refused_env ''https://x.test/img/42.png'' ''/tmp/out'' empty_world)
     = Returns (Some (Error ''connection refused''))
   \<and> files (snd (snd (DownloadFile refused_env ''https://x.test/img/42.png'' ''/tmp/out''
        empty_world))) (staging_path ''/tmp/out'' ''42.png'') = Some []
   \<and> fst (DownloadFile full_disk_env ''https://x.test/img/42.png'' ''/tmp/out'' empty_world)
     = Returns (Some (Error ''no space left on device''))
   \<and> files (snd (snd (DownloadFile full_disk_env ''https://x.test/img/42.png'' ''/tmp/out''
        empty_world))) (staging_path ''/tmp/out'' ''42.png'') = Some [1, 2, 3, 4]
   \<and> fst (DownloadFile rename_denied_env ''https://x.test/img/42.png'' ''/tmp/out'' empty_world)
     = Returns (Some (Error ''permission denied''))
   \<and> files (snd (snd (DownloadFile rename_denied_env ''https://x.test/img/42.png'' ''/tmp/out''
        empty_world))) (staging_path ''/tmp/out'' ''42.png'') = Some [1, 2, 3, 4, 5]
   \<and> files (snd (snd (DownloadFile rename_denied_env ''https://x.test/img/42.png'' ''/tmp/out''
        empty_world))) (final_path ''/tmp/out'' ''42.png'') = None"
proof -
  let ?e = "Error ''connection reset by peer''"
  let ?rs = "[(replicate 1024 0, None), ([], Some ?e)]"
  let ?url = "''https://x.test/img/42.png''"
  let ?E = "fair_env ?rs [?url]"
  let ?Args = "[''download'', ''https://x.test/'', ''/tmp/out'']"
  let ?w1 = "crawl_start ?E ?Args empty_world"
  let ?W = "print (''image src:  '' @ ?url @ NL) ?w1"
  let ?X = "DownloadFile ?E ?url ''/tmp/out'' ?W"
  let ?tmp = "staging_path ''/tmp/out'' ''42.png''" and ?fin = "final_path ''/tmp/out'' ''42.png''"
  have name: "getFileName ?E ?url = Returns ''42.png''"
    by (simp add: getFileName_def parse_table_def)
  have run: "?X = (fst ?X, fst (snd ?X), snd (snd ?X))" by simp
  note T = DownloadFile_failures [OF name run]
  have cr: "create_result ?E ?tmp (files ?W) = None" by simp
  have pre: "get_result ?E ?url = Inr ?rs \<and> (\<forall>old b. write_result ?E ?tmp old b = None)
      \<and> body_error ?rs = Some ?e" by (simp add: EOF_def)
  from T [THEN conjunct2, THEN conjunct1, THEN mp, OF cr, THEN conjunct2, THEN conjunct1,
      rule_format, OF pre]
  have stream: "fst ?X = Returns (Some ?e)" "files (snd (snd ?X)) ?tmp = Some (replicate 1024 0)"
    by simp_all
  then have failed: "fst ?X \<noteq> Returns None" by simp
  from T [THEN conjunct2, THEN conjunct2, THEN conjunct1, THEN mp, OF failed]
  have fin: "files (snd (snd ?X)) ?fin = None" by (simp add: empty_world_def)
  have "fst ?X \<noteq> Returns None \<and> length ?Args = 3 \<and> ?Args ! 2 = ''/tmp/out''
      \<and> visit_result ?E (?Args ! 1) = [] @ ?url # []
      \<and> run_callbacks ?E ''/tmp/out'' [] (crawl_start ?E ?Args empty_world) = (Returns (), ?w1)
      \<and> ?W = print (''image src:  '' @ ?url @ NL) ?w1"
    using failed by simp
  from T [THEN conjunct2, THEN conjunct2, THEN conjunct2, THEN conjunct2, rule_format, OF this]
    stream(1)
  have panic: "fst (main ?E ?Args empty_world) = PanicExit ?e" by auto
  from T [THEN conjunct2, THEN conjunct2, THEN conjunct2, THEN conjunct1, rule_format,
      of "[''download'', ''https://x.test/'']" empty_world]
  have config: "fst (main ?E [''download'', ''https://x.test/''] empty_world) = ExitCode 1"
    by simp
  let ?w2 = "called (Get ?url)
      (sys (Create ?tmp) ((files empty_world)(?tmp \<mapsto> [])) empty_world)"
  let ?A = "DownloadFile missing_dir_env ?url ''/tmp/out'' empty_world"
  have nameA: "getFileName missing_dir_env ?url = Returns ''42.png''"
    by (rule getFileName_42) simp
  have runA: "?A = (fst ?A, fst (snd ?A), snd (snd ?A))" by simp
  have "create_result missing_dir_env ?tmp (files empty_world)
      = Some (Error ''no such file or directory'')" by simp
  from DownloadFile_failures [OF nameA runA, THEN conjunct1, rule_format, OF this]
  have A: "fst ?A = Returns (Some (Error ''no such file or directory''))"
    "files (snd (snd ?A)) = files empty_world" by simp_all
  let ?B = "DownloadFile refused_env ?url ''/tmp/out'' empty_world"
  have nameB: "getFileName refused_env ?url = Returns ''42.png''"
    by (rule getFileName_42) simp
  have runB: "?B = (fst ?B, fst (snd ?B), snd (snd ?B))" by simp
  have crB: "create_result refused_env ?tmp (files empty_world) = None" by simp
  have "get_result refused_env ?url = Inl (Error ''connection refused'')" by simp
  from DownloadFile_failures [OF nameB runB, THEN conjunct2, THEN conjunct1, THEN mp, OF crB,
      THEN conjunct1, rule_format, OF this]
  have B: "fst ?B = Returns (Some (Error ''connection refused''))"
    "files (snd (snd ?B)) ?tmp = Some []" by simp_all
  let ?C = "DownloadFile full_disk_env ?url ''/tmp/out'' empty_world"
  let ?pre = "io_Copy full_disk_env ?tmp [([1, 2, 3], None)] \<lparr>Total = 0\<rparr> ?w2"
  have nameC: "getFileName full_disk_env ?url = Returns ''42.png''"
    by (rule getFileName_42) simp
  have runC: "?C = (fst ?C, fst (snd ?C), snd (snd ?C))" by simp
  have crC: "create_result full_disk_env ?tmp (files empty_world) = None" by simp
  have "fst ?pre = None"
    by (simp add: io_Copy_Cons_nonempty file_Write_def Let_def)
  then have preC: "?pre = (None, fst (snd ?pre), snd (snd ?pre))" by (metis prod.collapse)
  have "get_result full_disk_env ?url = Inr ([([1, 2, 3], None)] @ ([4, 5], Some EOF) # [])
      \<and> list_all (\<lambda>(q, er). er = None) [([1, 2, 3], None)]
      \<and> ?pre = (None, fst (snd ?pre), snd (snd ?pre))
      \<and> [4, 5] \<noteq> ([] :: byte list)
      \<and> write_result full_disk_env ?tmp (body_bytes [([1, 2, 3], None)]) [4, 5]
          = Some (1, Error ''no space left on device'')"
    using preC by simp
  from DownloadFile_failures [OF nameC runC, THEN conjunct2, THEN conjunct1, THEN mp, OF crC,
      THEN conjunct2, THEN conjunct2, THEN conjunct1, rule_format, OF this]
  have C: "fst ?C = Returns (Some (Error ''no space left on device''))"
    "files (snd (snd ?C)) ?tmp = Some [1, 2, 3, 4]" by simp_all
  let ?D = "DownloadFile rename_denied_env ?url ''/tmp/out'' empty_world"
  let ?all = "io_Copy rename_denied_env ?tmp [([1, 2, 3], None), ([4, 5], Some EOF)]
      \<lparr>Total = 0\<rparr> ?w2"
  have nameD: "getFileName rename_denied_env ?url = Returns ''42.png''"
    by (rule getFileName_42) simp
  have runD: "?D = (fst ?D, fst (snd ?D), snd (snd ?D))" by simp
  have crD: "create_result rename_denied_env ?tmp (files empty_world) = None" by simp
  have "fst ?all = None"
    by (simp add: io_Copy_Cons_nonempty file_Write_def Let_def)
  then have allD: "?all = (None, fst (snd ?all), snd (snd ?all))" by (metis prod.collapse)
  have "get_result rename_denied_env ?url = Inr [([1, 2, 3], None), ([4, 5], Some EOF)]
      \<and> ?all = (None, fst (snd ?all), snd (snd ?all))
      \<and> rename_result rename_denied_env ?tmp ?fin (files (snd (snd ?all)))
          = Some (Error ''permission denied'')"
    using allD by simp
  from DownloadFile_failures [OF nameD runD, THEN conjunct2, THEN conjunct1, THEN mp, OF crD,
      THEN conjunct2, THEN conjunct2, THEN conjunct2, rule_format, OF this]
  have D: "fst ?D = Returns (Some (Error ''permission denied''))"
    "files (snd (snd ?D)) ?tmp = Some [1, 2, 3, 4, 5]" by simp_all
  then have "fst ?D \<noteq> Returns None" by simp
  from DownloadFile_failures [OF nameD runD, THEN conjunct2, THEN conjunct2, THEN conjunct1,
      THEN mp, OF this]
  have D': "files (snd (snd ?D)) ?fin = None" by (simp add: empty_world_def)
  from name stream fin panic config A B C D D' show ?thesis by simp
qed

text \<open>
  C10. With three arguments \<^verbatim>\<open>main\<close> itself calls
  \<^verbatim>\<open>os.MkdirAll(dir, 0700)\<close> right after \<^verbatim>\<open>os.Stat\<close> when the
  directory is reported missing (and does not when it is not), and goes on to visit the
  page and to download whatever \<^verbatim>\<open>os.MkdirAll\<close> returned: its result is
  read nowhere, so \<^verbatim>\<open>main\<close> does the same for every outcome of the
  creation, and the first image's staging file is the next call after the visit.
\<close>

theorem main_ignores_MkdirAll_error:
  assumes "length Args = 3"
  shows "(os_IsNotExist env (stat_result env (Args ! 2)) \<longrightarrow>
            map fst (take 3 (trace_since w (snd (main env Args w))))
              = [Stat (Args ! 2), MkdirAll (Args ! 2) 448, Visit (Args ! 1)]
          \<and> (\<forall>url rest name. visit_result env (Args ! 1) = url # rest
                \<and> getFileName env url = Returns name \<longrightarrow>
                map fst (take 4 (trace_since w (snd (main env Args w))))
                  = [Stat (Args ! 2), MkdirAll (Args ! 2) 448, Visit (Args ! 1),
                     Create (staging_path (Args ! 2) name)]))
       \<and> (\<not> os_IsNotExist env (stat_result env (Args ! 2)) \<longrightarrow>
            map fst (take 2 (trace_since w (snd (main env Args w))))
              = [Stat (Args ! 2), Visit (Args ! 1)])
       \<and> (\<forall>r. main (env\<lparr>mkdir_result := r\<rparr>) Args w = main env Args w)
       \<and> main env Args w =
           (case run_callbacks env (Args ! 2) (visit_result env (Args ! 1))
                   (crawl_start env Args w) of
              (Panics e, w4) \<Rightarrow> (PanicExit e, w4)
            | (Returns u, w4) \<Rightarrow> (ExitCode 0, print (''Grabbing completed!'' @ NL) w4))"
proof -
  let ?urls = "visit_result env (Args ! 1)"
  let ?w' = "snd (main env Args w)"
  let ?rc = "run_callbacks env (Args ! 2) ?urls (crawl_start env Args w)"
  from run_callbacks_extends [of env "Args ! 2" ?urls "crawl_start env Args w"]
  obtain new where new: "trace ?w' = trace (crawl_start env Args w) @ new"
    using trace_main [OF assms] by auto
  have three: "map fst (take 3 (trace_since w ?w'))
      = [Stat (Args ! 2), MkdirAll (Args ! 2) 448, Visit (Args ! 1)]"
    if "os_IsNotExist env (stat_result env (Args ! 2))"
    using that new by (simp add: trace_crawl_start trace_since_def)
  have two: "map fst (take 2 (trace_since w ?w')) = [Stat (Args ! 2), Visit (Args ! 1)]"
    if "\<not> os_IsNotExist env (stat_result env (Args ! 2))"
    using that new by (simp add: trace_crawl_start trace_since_def)
  have four: "map fst (take 4 (trace_since w ?w'))
      = [Stat (Args ! 2), MkdirAll (Args ! 2) 448, Visit (Args ! 1),
         Create (staging_path (Args ! 2) name)]"
    if h: "os_IsNotExist env (stat_result env (Args ! 2))" "?urls = url # rest"
      "getFileName env url = Returns name" for url rest name
  proof -
    from run_callbacks_first_call [OF h(3), of "Args ! 2" rest "crawl_start env Args w"]
    obtain fs new' where "trace (snd ?rc)
        = trace (crawl_start env Args w) @ (Create (staging_path (Args ! 2) name), fs) # new'"
      using h(2) by auto
    then show ?thesis
      using h(1) trace_main [OF assms, of env w]
      by (simp add: trace_crawl_start trace_since_def)
  qed
  show ?thesis
  proof (intro conjI allI impI; (elim conjE)?)
    assume "os_IsNotExist env (stat_result env (Args ! 2))"
    then show "map fst (take 3 (trace_since w ?w'))
      = [Stat (Args ! 2), MkdirAll (Args ! 2) 448, Visit (Args ! 1)]" by (rule three)
  next
    fix url rest name
    assume "os_IsNotExist env (stat_result env (Args ! 2))" "?urls = url # rest"
      "getFileName env url = Returns name"
    then show "map fst (take 4 (trace_since w ?w'))
      = [Stat (Args ! 2), MkdirAll (Args ! 2) 448, Visit (Args ! 1),
         Create (staging_path (Args ! 2) name)]" by (rule four)
  next
    assume "\<not> os_IsNotExist env (stat_result env (Args ! 2))"
    then show "map fst (take 2 (trace_since w ?w')) = [Stat (Args ! 2), Visit (Args ! 1)]"
      by (rule two)
  next
    fix r show "main (env\<lparr>mkdir_result := r\<rparr>) Args w = main env Args w"
      by (rule main_mkdir_result)
  next
    show "main env Args w =
           (case ?rc of
              (Panics e, w4) \<Rightarrow> (PanicExit e, w4)
            | (Returns u, w4) \<Rightarrow> (ExitCode 0, print (''Grabbing completed!'' @ NL) w4))"
      by (rule main_three_args [OF assms])
  qed
qed


theorem main_ignores_MkdirAll_error_witness:
  "length [''download'', ''https://x.test/'', ''/tmp/out''] = 3
   \<and> os_IsNotExist missing_dir_env (stat_result missing_dir_env ''/tmp/out'')
   \<and> mkdir_result missing_dir_env ''/tmp/out'' 448 = Some (Error ''permission denied'')
   \<and> map fst (take 4 (trace_since empty_world
        (snd (main missing_dir_env [''download'', ''https://x.test/'', ''/tmp/out''] empty_world))))
     = [Stat ''/tmp/out'', MkdirAll ''/tmp/out'' 448, Visit ''https://x.test/'',
        Create ''/tmp/out/42.png.tmp'']
   \<and> fst (main missing_dir_env [''download'', ''https://x.test/'', ''/tmp/out''] empty_world)
     = PanicExit (Error ''no such file or directory'')"
proof -
  let ?Args = "[''download'', ''https://x.test/'', ''/tmp/out'']"
  let ?url = "''https://x.test/img/42.png''"
  have len: "length ?Args = 3" by simp
  have missing: "os_IsNotExist missing_dir_env (stat_result missing_dir_env (?Args ! 2))"
    by simp
  have name: "getFileName missing_dir_env ?url = Returns ''42.png''"
    by (simp add: getFileName_def parse_table_def)
  have img: "visit_result missing_dir_env (?Args ! 1) = ?url # []
      \<and> getFileName missing_dir_env ?url = Returns ''42.png''"
    using name by simp
  from main_ignores_MkdirAll_error [OF len, of missing_dir_env empty_world, THEN conjunct1,
      THEN mp, OF missing, THEN conjunct2, rule_format, OF img]
  have calls: "map fst (take 4 (trace_since empty_world (snd (main missing_dir_env ?Args empty_world))))
     = [Stat ''/tmp/out'', MkdirAll ''/tmp/out'' 448, Visit ''https://x.test/'',
        Create ''/tmp/out/42.png.tmp'']"
    by (simp add: staging_path_def)
  have "fst (main missing_dir_env ?Args empty_world) = PanicExit (Error ''no such file or directory'')"
    by (simp add: main_three_args OnHTML_callback_def DownloadFile_def name os_Create_def)
  with calls missing show ?thesis by simp
qed

end
